theory Spec2Isabelle
  imports Main "HOL-Library.AList"
begin

section \<open>Distance Vector Routing: the data model of \<^verbatim>\<open>distance_vector_animated.py\<close>\<close>

text \<open>
  Node names are Python strings. Link costs are Python integers (as in \<^verbatim>\<open>main\<close>), and a
  distance is either an integer or \<^verbatim>\<open>float('inf')\<close>. Python dictionaries keep insertion
  order and the simulation iterates over them, so every dictionary is an association
  list: \<open>map_of\<close> reads a key, \<open>AList.update\<close> is the assignment \<^verbatim>\<open>d[k] = v\<close>
  (in place when the key exists, appended otherwise). A lookup of a missing key raises
  \<^verbatim>\<open>KeyError\<close>; adding an integer too large for a float to \<^verbatim>\<open>inf\<close> raises
  \<^verbatim>\<open>OverflowError\<close>.
\<close>

datatype py_error = KeyError | OverflowError

datatype dist = Fin int | PInf

text \<open>
  \<^verbatim>\<open>costo + distanza\<close>. Two integers add exactly. To add an integer to the float
  \<^verbatim>\<open>inf\<close> Python first converts the integer to a float: the conversion raises
  \<^verbatim>\<open>OverflowError\<close> when the integer rounds to \<open>2 ^ 1024\<close> or beyond, that is from
  \<open>2 ^ 1024 - 2 ^ 970\<close> on in absolute value; otherwise the sum is \<^verbatim>\<open>inf\<close>.
\<close>

definition convertibile :: "int \<Rightarrow> bool" where
  "convertibile c \<longleftrightarrow> \<bar>c\<bar> < 2 ^ 1024 - 2 ^ 970"

fun somma :: "int \<Rightarrow> dist \<Rightarrow> py_error + dist" where
  "somma c (Fin d) = Inr (Fin (c + d))"
| "somma c PInf = (if convertibile c then Inr PInf else Inl OverflowError)"

text \<open>Python's \<^verbatim>\<open><\<close> on integers and \<^verbatim>\<open>inf\<close>.\<close>

fun minore :: "dist \<Rightarrow> dist \<Rightarrow> bool" where
  "minore (Fin a) (Fin b) = (a < b)"
| "minore (Fin a) PInf = True"
| "minore PInf y = False"

text \<open>
  Used to state properties: the order \<^verbatim>\<open><=\<close> on distances, and the sum of a cost and
  a distance as a number (what \<open>somma\<close> returns whenever it raises nothing).
\<close>

fun minore_uguale :: "dist \<Rightarrow> dist \<Rightarrow> bool" where
  "minore_uguale (Fin a) (Fin b) = (a \<le> b)"
| "minore_uguale x PInf = True"
| "minore_uguale PInf (Fin b) = False"

fun somma_pura :: "int \<Rightarrow> dist \<Rightarrow> dist" where
  "somma_pura c (Fin d) = Fin (c + d)"
| "somma_pura c PInf = PInf"

type_synonym voce = "string option \<times> dist"
type_synonym tabella = "(string \<times> voce) list"
type_synonym vettore = "(string \<times> dist) list"

record Nodo =
  nome :: string
  vicini :: "(string \<times> int) list"
  tabella_routing :: tabella

type_synonym rete = "(string \<times> Nodo) list"

subsection \<open>\<^verbatim>\<open>Nodo.inizializza_tabella\<close>\<close>

definition voce_iniziale :: "Nodo \<Rightarrow> string \<Rightarrow> voce" where
  "voce_iniziale n nodo =
     (if nodo = nome n then (Some (nome n), Fin 0)
      else case map_of (vicini n) nodo of
             Some c \<Rightarrow> (Some nodo, Fin c)
           | None \<Rightarrow> (None, PInf))"

fun inizializza_ciclo :: "Nodo \<Rightarrow> string list \<Rightarrow> tabella \<Rightarrow> tabella" where
  "inizializza_ciclo n [] t = t"
| "inizializza_ciclo n (nodo # resto) t =
     inizializza_ciclo n resto (AList.update nodo (voce_iniziale n nodo) t)"

definition inizializza_tabella :: "Nodo \<Rightarrow> string list \<Rightarrow> Nodo" where
  "inizializza_tabella n tutti_i_nodi =
     n\<lparr>tabella_routing := inizializza_ciclo n tutti_i_nodi []\<rparr>"

subsection \<open>\<^verbatim>\<open>Nodo.invia_vettore\<close>\<close>

definition invia_vettore :: "Nodo \<Rightarrow> vettore" where
  "invia_vettore n = map (\<lambda>(dest, (via, d)). (dest, d)) (tabella_routing n)"

subsection \<open>\<^verbatim>\<open>Nodo.aggiorna_tabella\<close>\<close>

text \<open>
  The loop over \<^verbatim>\<open>vettore.items()\<close>. The sum is computed first, then the table is
  read. The table is mutated in place, so when the sum or the lookup
  \<^verbatim>\<open>self.tabella_routing[destinazione]\<close> raises, the entries written so far stay written:
  the function returns the table as it is at that moment together with the error.
\<close>

fun aggiorna_ciclo ::
  "string \<Rightarrow> int \<Rightarrow> vettore \<Rightarrow> tabella \<Rightarrow> bool \<Rightarrow> (py_error + bool) \<times> tabella" where
  "aggiorna_ciclo mittente costo [] t modificato = (Inr modificato, t)"
| "aggiorna_ciclo mittente costo ((destinazione, distanza_mittente) # resto) t modificato =
     (case somma costo distanza_mittente of
        Inl e \<Rightarrow> (Inl e, t)
      | Inr nuova_distanza \<Rightarrow>
          (case map_of t destinazione of
             None \<Rightarrow> (Inl KeyError, t)
           | Some (via, distanza_corrente) \<Rightarrow>
               if minore nuova_distanza distanza_corrente
               then aggiorna_ciclo mittente costo resto
                      (AList.update destinazione (Some mittente, nuova_distanza) t) True
               else aggiorna_ciclo mittente costo resto t modificato))"

definition aggiorna_tabella :: "Nodo \<Rightarrow> string \<Rightarrow> vettore \<Rightarrow> (py_error + bool) \<times> Nodo" where
  "aggiorna_tabella n mittente v =
     (case map_of (vicini n) mittente of
        None \<Rightarrow> (Inl KeyError, n)
      | Some costo_verso_mittente \<Rightarrow>
          (case aggiorna_ciclo mittente costo_verso_mittente v (tabella_routing n) False of
             (r, t) \<Rightarrow> (r, n\<lparr>tabella_routing := t\<rparr>)))"

subsection \<open>\<^verbatim>\<open>simula\<close>\<close>

text \<open>
  One round. \<open>ciclo_vicini\<close> is the inner loop \<^verbatim>\<open>for vicino in nodo.vicini\<close>,
  \<open>ciclo_snapshot\<close> the outer loop over \<^verbatim>\<open>snapshot.items()\<close>; \<open>iterazione\<close> runs
  both on \<^verbatim>\<open>snapshot = copy.deepcopy(nodi)\<close>, which in a model of values is the
  state of the network when the round starts. The values of \<^verbatim>\<open>nodi\<close> are distinct
  objects, as \<^verbatim>\<open>main\<close> builds them.
\<close>

fun ciclo_vicini ::
  "string \<Rightarrow> vettore \<Rightarrow> string list \<Rightarrow> rete \<Rightarrow> nat \<Rightarrow> (py_error + nat) \<times> rete" where
  "ciclo_vicini nm v [] nodi aggiornamenti = (Inr aggiornamenti, nodi)"
| "ciclo_vicini nm v (vicino # resto) nodi aggiornamenti =
     (case map_of nodi vicino of
        None \<Rightarrow> (Inl KeyError, nodi)
      | Some nd \<Rightarrow>
          (case aggiorna_tabella nd nm v of
             (Inl e, nd') \<Rightarrow> (Inl e, AList.update vicino nd' nodi)
           | (Inr aggiornato, nd') \<Rightarrow>
               ciclo_vicini nm v resto (AList.update vicino nd' nodi)
                 (if aggiornato then aggiornamenti + 1 else aggiornamenti)))"

fun ciclo_snapshot :: "rete \<Rightarrow> rete \<Rightarrow> nat \<Rightarrow> (py_error + nat) \<times> rete" where
  "ciclo_snapshot [] nodi aggiornamenti = (Inr aggiornamenti, nodi)"
| "ciclo_snapshot ((nm, nodo) # resto) nodi aggiornamenti =
     (case ciclo_vicini nm (invia_vettore nodo) (map fst (vicini nodo)) nodi aggiornamenti of
        (Inl e, nodi') \<Rightarrow> (Inl e, nodi')
      | (Inr aggiornamenti', nodi') \<Rightarrow> ciclo_snapshot resto nodi' aggiornamenti')"

definition iterazione :: "rete \<Rightarrow> (py_error + nat) \<times> rete" where
  "iterazione nodi = ciclo_snapshot nodi nodi 0"

text \<open>
  What \<^verbatim>\<open>simula\<close> prints: the header of each round, the tables after the round
  (\<^verbatim>\<open>stampa_tabella\<close> of every node) and the convergence message. Drawing the graph
  (\<^verbatim>\<open>disegna_grafo\<close>) reads the tables and changes nothing; it is left out.
\<close>

datatype stampa = StampaIterazione nat | StampaTabelle rete | StampaConvergenza

record esecuzione =
  ritorno :: "py_error + unit"
  nodi_finali :: rete
  stampe :: "stampa list"

text \<open>
  The loop \<^verbatim>\<open>for iterazione in range(max_iter)\<close>. The function has no \<^verbatim>\<open>return\<close>:
  it gives \<^verbatim>\<open>None\<close> (here \<open>Inr ()\<close>) on every path that does not raise.
\<close>

fun ciclo_iterazioni :: "nat list \<Rightarrow> rete \<Rightarrow> esecuzione" where
  "ciclo_iterazioni [] nodi = \<lparr>ritorno = Inr (), nodi_finali = nodi, stampe = []\<rparr>"
| "ciclo_iterazioni (it # resto) nodi =
     (case iterazione nodi of
        (Inl e, nodi') \<Rightarrow>
          \<lparr>ritorno = Inl e, nodi_finali = nodi', stampe = [StampaIterazione (it + 1)]\<rparr>
      | (Inr aggiornamenti, nodi') \<Rightarrow>
          if aggiornamenti = 0
          then \<lparr>ritorno = Inr (), nodi_finali = nodi',
                stampe = [StampaIterazione (it + 1), StampaTabelle nodi', StampaConvergenza]\<rparr>
          else (let r = ciclo_iterazioni resto nodi' in
                r\<lparr>stampe := StampaIterazione (it + 1) # StampaTabelle nodi' # stampe r\<rparr>))"

definition inizializza_tutti :: "rete \<Rightarrow> rete" where
  "inizializza_tutti nodi =
     (let tutti_i_nomi = map fst nodi
      in map (\<lambda>(k, nodo). (k, inizializza_tabella nodo tutti_i_nomi)) nodi)"

definition simula :: "rete \<Rightarrow> int \<Rightarrow> esecuzione" where
  "simula nodi max_iter = ciclo_iterazioni [0..<nat max_iter] (inizializza_tutti nodi)"

subsection \<open>The network of \<^verbatim>\<open>main\<close>\<close>

definition nodo_nuovo :: "string \<Rightarrow> Nodo" where
  "nodo_nuovo nm = \<lparr>nome = nm, vicini = [], tabella_routing = []\<rparr>"

definition rete_main :: rete where
  "rete_main =
     [(''A'', (nodo_nuovo ''A'')\<lparr>vicini := [(''B'', 1), (''C'', 4)]\<rparr>),
      (''B'', (nodo_nuovo ''B'')\<lparr>vicini := [(''A'', 1), (''C'', 2), (''D'', 7)]\<rparr>),
      (''C'', (nodo_nuovo ''C'')\<lparr>vicini := [(''A'', 4), (''B'', 2), (''D'', 1)]\<rparr>),
      (''D'', (nodo_nuovo ''D'')\<lparr>vicini := [(''B'', 7), (''C'', 1)]\<rparr>)]"

section \<open>Notions used to state the properties\<close>

text \<open>
  What a whole vector \<open>v\<close>, sent by \<open>m\<close> over a link of cost \<open>c\<close>, does to the entry
  \<open>e\<close> stored for destination \<open>d\<close>.
\<close>

definition migliora :: "string \<Rightarrow> int \<Rightarrow> vettore \<Rightarrow> string \<Rightarrow> voce \<Rightarrow> voce" where
  "migliora m c v d e =
     (case map_of v d of
        None \<Rightarrow> e
      | Some s \<Rightarrow> if minore (somma_pura c s) (snd e) then (Some m, somma_pura c s) else e)"

text \<open>
  No sum \<open>c + s\<close> with a distance \<open>s\<close> of the vector \<open>v\<close> raises \<^verbatim>\<open>OverflowError\<close>:
  the cost converts to a float, or the vector holds no infinite distance.
\<close>

definition somma_sicura :: "int \<Rightarrow> vettore \<Rightarrow> bool" where
  "somma_sicura c v \<longleftrightarrow> convertibile c \<or> PInf \<notin> snd ` set v"

text \<open>The distance that node \<open>k\<close> stores for destination \<open>d\<close>.\<close>

definition distanza :: "rete \<Rightarrow> string \<Rightarrow> string \<Rightarrow> dist option" where
  "distanza nodi k d =
     (case map_of nodi k of
        None \<Rightarrow> None
      | Some n \<Rightarrow> map_option snd (map_of (tabella_routing n) d))"

text \<open>
  The rounds of a run: \<open>passo\<close> is the state a round leaves, \<open>dopo r nodi\<close> the state
  after initialisation and \<open>r\<close> rounds, \<open>conteggio r nodi\<close> the value of
  \<^verbatim>\<open>aggiornamenti\<close> at the end of round \<open>r + 1\<close> (or the error it raises).
\<close>

definition passo :: "rete \<Rightarrow> rete" where
  "passo nodi = snd (iterazione nodi)"

definition dopo :: "nat \<Rightarrow> rete \<Rightarrow> rete" where
  "dopo r nodi = (passo ^^ r) (inizializza_tutti nodi)"

definition conteggio :: "nat \<Rightarrow> rete \<Rightarrow> py_error + nat" where
  "conteggio r nodi = fst (iterazione (dopo r nodi))"

text \<open>
  Reading the output: the tables printed, the round headers printed, and the number of
  rounds started (one header each).
\<close>

fun tabelle_stampate :: "stampa list \<Rightarrow> rete list" where
  "tabelle_stampate [] = []"
| "tabelle_stampate (StampaTabelle t # resto) = t # tabelle_stampate resto"
| "tabelle_stampate (x # resto) = tabelle_stampate resto"

fun intestazioni :: "stampa list \<Rightarrow> nat list" where
  "intestazioni [] = []"
| "intestazioni (StampaIterazione i # resto) = i # intestazioni resto"
| "intestazioni (x # resto) = intestazioni resto"

definition eseguite :: "esecuzione \<Rightarrow> nat" where
  "eseguite e = length (intestazioni (stampe e))"

text \<open>
  A network as \<^verbatim>\<open>main\<close> builds it: the keys of \<^verbatim>\<open>nodi\<close> are distinct (it is a
  dictionary), every node is stored under its own name, every neighbour is a node of the
  network, and links go both ways (the costs of the two directions may differ).
\<close>

definition topologia_valida :: "rete \<Rightarrow> bool" where
  "topologia_valida nodi \<longleftrightarrow>
     distinct (map fst nodi) \<and>
     (\<forall>(k, n) \<in> set nodi.
        nome n = k \<and>
        (\<forall>v \<in> fst ` set (vicini n).
           case map_of nodi v of
             None \<Rightarrow> False
           | Some nv \<Rightarrow> k \<in> fst ` set (vicini nv)))"

text \<open>No link has a negative cost.\<close>

definition costi_non_negativi :: "rete \<Rightarrow> bool" where
  "costi_non_negativi nodi \<longleftrightarrow> (\<forall>(k, n) \<in> set nodi. \<forall>(v, c) \<in> set (vicini n). 0 \<le> c)"

text \<open>Every link cost converts to a float, so that adding it to \<^verbatim>\<open>inf\<close> raises nothing.\<close>

definition costi_convertibili :: "rete \<Rightarrow> bool" where
  "costi_convertibili nodi \<longleftrightarrow> (\<forall>(k, n) \<in> set nodi. \<forall>(v, c) \<in> set (vicini n). convertibile c)"

text \<open>
  A state of the simulation after initialisation: a valid network in which every table
  has the names of all nodes as its keys, in the order of \<^verbatim>\<open>nodi\<close>.
\<close>

definition stato_valido :: "rete \<Rightarrow> bool" where
  "stato_valido nodi \<longleftrightarrow>
     topologia_valida nodi \<and>
     (\<forall>(k, n) \<in> set nodi. map fst (tabella_routing n) = map fst nodi)"

text \<open>What a round never changes: keys, names, neighbours and the keys of every table.\<close>

definition forma :: "rete \<Rightarrow> (string \<times> string \<times> (string \<times> int) list \<times> string list) list" where
  "forma nodi = map (\<lambda>(k, n). (k, nome n, vicini n, map fst (tabella_routing n))) nodi"

text \<open>The routing entry (next hop, distance) that node \<open>k\<close> stores for destination \<open>d\<close>.\<close>

definition voce_di :: "rete \<Rightarrow> string \<Rightarrow> string \<Rightarrow> voce option" where
  "voce_di nodi k d =
     (case map_of nodi k of
        None \<Rightarrow> None
      | Some n \<Rightarrow> map_of (tabella_routing n) d)"

text \<open>The tables of the network of \<^verbatim>\<open>main\<close> after the first round and after the second.\<close>

definition tabelle_main_1 :: rete where
  "tabelle_main_1 =
     [(''A'', \<lparr>nome = ''A'', vicini = [(''B'', 1), (''C'', 4)],
          tabella_routing = [(''A'', Some ''A'', Fin 0), (''B'', Some ''B'', Fin 1),
                (''C'', Some ''B'', Fin 3), (''D'', Some ''C'', Fin 5)]\<rparr>),
      (''B'', \<lparr>nome = ''B'', vicini = [(''A'', 1), (''C'', 2), (''D'', 7)],
          tabella_routing = [(''A'', Some ''A'', Fin 1), (''B'', Some ''B'', Fin 0),
                (''C'', Some ''C'', Fin 2), (''D'', Some ''C'', Fin 3)]\<rparr>),
      (''C'', \<lparr>nome = ''C'', vicini = [(''A'', 4), (''B'', 2), (''D'', 1)],
          tabella_routing = [(''A'', Some ''B'', Fin 3), (''B'', Some ''B'', Fin 2),
                (''C'', Some ''C'', Fin 0), (''D'', Some ''D'', Fin 1)]\<rparr>),
      (''D'', \<lparr>nome = ''D'', vicini = [(''B'', 7), (''C'', 1)],
          tabella_routing = [(''A'', Some ''C'', Fin 5), (''B'', Some ''C'', Fin 3),
                (''C'', Some ''C'', Fin 1), (''D'', Some ''D'', Fin 0)]\<rparr>)]"

definition tabelle_main_2 :: rete where
  "tabelle_main_2 =
     [(''A'', \<lparr>nome = ''A'', vicini = [(''B'', 1), (''C'', 4)],
          tabella_routing = [(''A'', Some ''A'', Fin 0), (''B'', Some ''B'', Fin 1),
                (''C'', Some ''B'', Fin 3), (''D'', Some ''B'', Fin 4)]\<rparr>),
      (''B'', \<lparr>nome = ''B'', vicini = [(''A'', 1), (''C'', 2), (''D'', 7)],
          tabella_routing = [(''A'', Some ''A'', Fin 1), (''B'', Some ''B'', Fin 0),
                (''C'', Some ''C'', Fin 2), (''D'', Some ''C'', Fin 3)]\<rparr>),
      (''C'', \<lparr>nome = ''C'', vicini = [(''A'', 4), (''B'', 2), (''D'', 1)],
          tabella_routing = [(''A'', Some ''B'', Fin 3), (''B'', Some ''B'', Fin 2),
                (''C'', Some ''C'', Fin 0), (''D'', Some ''D'', Fin 1)]\<rparr>),
      (''D'', \<lparr>nome = ''D'', vicini = [(''B'', 7), (''C'', 1)],
          tabella_routing = [(''A'', Some ''C'', Fin 4), (''B'', Some ''C'', Fin 3),
                (''C'', Some ''C'', Fin 1), (''D'', Some ''D'', Fin 0)]\<rparr>)]"

text \<open>
  A valid network with a link whose cost does not convert to a float: A-B of cost
  \<open>2^1024\<close>, B-C of cost 1.
\<close>

definition rete_grande :: rete where
  "rete_grande =
     [(''A'', (nodo_nuovo ''A'')\<lparr>vicini := [(''B'', 2 ^ 1024)]\<rparr>),
      (''B'', (nodo_nuovo ''B'')\<lparr>vicini := [(''A'', 2 ^ 1024), (''C'', 1)]\<rparr>),
      (''C'', (nodo_nuovo ''C'')\<lparr>vicini := [(''B'', 1)]\<rparr>)]"

text \<open>
  The invariant of a node behind the entry for its own name: the keys of its table are
  distinct, its link costs and stored distances are not negative, and, when its name is
  one of the names in \<open>K\<close>, its own entry is \<open>(nome, 0)\<close>.
\<close>

definition nodo_sano :: "string set \<Rightarrow> Nodo \<Rightarrow> bool" where
  "nodo_sano K n \<longleftrightarrow>
     distinct (map fst (tabella_routing n)) \<and>
     (\<forall>(v, c) \<in> set (vicini n). 0 \<le> c) \<and>
     (\<forall>(d, via, x) \<in> set (tabella_routing n). minore_uguale (Fin 0) x) \<and>
     (nome n \<in> K \<longrightarrow> map_of (tabella_routing n) (nome n) = Some (Some (nome n), Fin 0))"

subsection \<open>The synchronous step of the specification\<close>

text \<open>
  Written from the specification's words, to be compared with \<open>iterazione\<close>: a
  double-buffered step. \<open>consegne vecchi\<close> lists the deliveries of a round as
  (receiver, sender, vector), every vector being the export of the sender's table of the
  old generation; \<open>ricevi\<close> applies a list of deliveries to one node;
  \<open>passo_sincrono\<close> computes the new generation, each node from its own old table and
  the deliveries addressed to it, reading nothing of the new generation.
\<close>

definition consegne :: "rete \<Rightarrow> (string \<times> string \<times> vettore) list" where
  "consegne vecchi =
     concat (map (\<lambda>(nm, nodo). map (\<lambda>vicino. (vicino, nm, invia_vettore nodo))
                                    (map fst (vicini nodo))) vecchi)"

definition ricevi :: "Nodo \<Rightarrow> (string \<times> string \<times> vettore) list \<Rightarrow> Nodo" where
  "ricevi n ds = foldl (\<lambda>n' (destinatario, mittente, v). snd (aggiorna_tabella n' mittente v)) n ds"

definition passo_sincrono :: "rete \<Rightarrow> rete" where
  "passo_sincrono vecchi =
     map (\<lambda>(k, n). (k, ricevi n (filter (\<lambda>(destinatario, mittente, v). destinatario = k)
                                        (consegne vecchi)))) vecchi"

subsection \<open>Shortest paths in the graph of the network\<close>








section \<open>Distances\<close>

lemma minore_irrefl [simp]: "\<not> minore x x"
  by (cases x) auto

lemma minore_imp_le: "minore x y \<Longrightarrow> minore_uguale x y"
  by (cases x; cases y) auto

lemma minore_uguale_refl [simp]: "minore_uguale x x"
  by (cases x) auto

lemma minore_uguale_trans: "minore_uguale x y \<Longrightarrow> minore_uguale y z \<Longrightarrow> minore_uguale x z"
  by (cases x; cases y; cases z) auto


lemma somma_Inr: "somma c s = Inr y \<Longrightarrow> y = somma_pura c s"
  by (cases s) (auto split: if_splits)

lemma somma_Inl: "somma c s = Inl e \<Longrightarrow> e = OverflowError \<and> s = PInf \<and> \<not> convertibile c"
  by (cases s) (auto split: if_splits)

lemma somma_cases [case_names ok overflow]:
  obtains "somma c s = Inr (somma_pura c s)" | "somma c s = Inl OverflowError"
  by (cases s; cases "convertibile c") auto

lemma somma_convertibile: "convertibile c \<Longrightarrow> somma c s = Inr (somma_pura c s)"
  by (cases s) auto

lemma somma_finita: "s \<noteq> PInf \<Longrightarrow> somma c s = Inr (somma_pura c s)"
  by (cases s) auto

section \<open>Initialisation and update of one table\<close>

lemma update_keys_presente:
  "map_of t k = Some e \<Longrightarrow> map fst (AList.update k e' t) = map fst t"
  by (induction t) auto

lemma inizializza_ciclo_map_of:
  "map_of (inizializza_ciclo n xs t) d =
     (if d \<in> set xs then Some (voce_iniziale n d) else map_of t d)"
  by (induction xs arbitrary: t) (auto simp: update_conv')

lemma inizializza_ciclo_distinct:
  "distinct (map fst t) \<Longrightarrow> distinct (map fst (inizializza_ciclo n xs t))"
  by (induction xs arbitrary: t) (auto simp: distinct_update)

lemma inizializza_ciclo_dom:
  "fst ` set (inizializza_ciclo n xs t) = fst ` set t \<union> set xs"
  by (induction xs arbitrary: t) (auto simp: dom_update)

lemma inizializza_ciclo_keys:
  "distinct xs \<Longrightarrow> set xs \<inter> fst ` set t = {} \<Longrightarrow>
   map fst (inizializza_ciclo n xs t) = map fst t @ xs"
proof (induction xs arbitrary: t)
  case Nil
  then show ?case by simp
next
  case (Cons x xs)
  have k: "map fst (AList.update x (voce_iniziale n x) t) = map fst t @ [x]"
    using Cons.prems(2) by (simp add: update_keys)
  have "set xs \<inter> fst ` set (AList.update x (voce_iniziale n x) t) = {}"
    using Cons.prems by (auto simp: dom_update)
  with Cons.IH [of "AList.update x (voce_iniziale n x) t"] Cons.prems(1) k
  show ?case by simp
qed

lemma aggiorna_ciclo_keys:
  "map fst (snd (aggiorna_ciclo m c v t b)) = map fst t"
  by (induction v arbitrary: t b)
     (auto simp: update_keys_presente split: option.splits sum.splits)

lemma aggiorna_ciclo_mono:
  "map_of t d = Some (via, x) \<Longrightarrow>
   \<exists>via' x'. map_of (snd (aggiorna_ciclo m c v t b)) d = Some (via', x') \<and> minore_uguale x' x"
proof (induction v arbitrary: t b via x)
  case Nil
  then show ?case by simp
next
  case (Cons p resto)
  obtain dest dm where p: "p = (dest, dm)" by (cases p)
  show ?case
  proof (cases rule: somma_cases [of c dm])
    case overflow
    then show ?thesis using Cons.prems p by simp
  next
    case ok
    show ?thesis
    proof (cases "map_of t dest")
      case None
      then show ?thesis using Cons.prems p ok by simp
    next
      case (Some e)
      obtain h cur where e: "e = (h, cur)" by (cases e)
      show ?thesis
      proof (cases "minore (somma_pura c dm) cur")
        case True
        let ?t1 = "AList.update dest (Some m, somma_pura c dm) t"
        obtain via1 x1 where m1: "map_of ?t1 d = Some (via1, x1)" and le1: "minore_uguale x1 x"
          using Cons.prems Some e True by (cases "d = dest") (auto simp: update_conv' minore_imp_le)
        from Cons.IH [OF m1, of True]
        obtain via' x' where "map_of (snd (aggiorna_ciclo m c resto ?t1 True)) d = Some (via', x')"
          and "minore_uguale x' x1" by blast
        then show ?thesis using Some e True le1 p ok
          by (auto intro: minore_uguale_trans)
      next
        case False
        from Cons.IH [OF Cons.prems, of b]
        show ?thesis using Some e False p ok by auto
      qed
    qed
  qed
qed

lemma aggiorna_ciclo_True: "fst (aggiorna_ciclo m c v t True) \<noteq> Inr False"
  by (induction v arbitrary: t)
     (auto split: option.splits if_splits sum.splits)

lemma aggiorna_ciclo_False:
  "aggiorna_ciclo m c v t b = (Inr False, t') \<Longrightarrow> t' = t \<and> \<not> b"
proof (induction v arbitrary: t b)
  case Nil
  then show ?case by simp
next
  case (Cons p resto)
  obtain dest dm where p: "p = (dest, dm)" by (cases p)
  show ?case
  proof (cases rule: somma_cases [of c dm])
    case overflow
    then show ?thesis using Cons.prems p by simp
  next
    case ok
    show ?thesis
    proof (cases "map_of t dest")
      case None
      then show ?thesis using Cons.prems p ok by simp
    next
      case (Some e)
      obtain h cur where e: "e = (h, cur)" by (cases e)
      show ?thesis
      proof (cases "minore (somma_pura c dm) cur")
        case True
        then have "aggiorna_ciclo m c resto (AList.update dest (Some m, somma_pura c dm) t) True = (Inr False, t')"
          using Cons.prems Some e p ok by simp
        then show ?thesis
          using aggiorna_ciclo_True [of m c resto "AList.update dest (Some m, somma_pura c dm) t"] by simp
      next
        case False
        then have "aggiorna_ciclo m c resto t b = (Inr False, t')"
          using Cons.prems Some e p ok by simp
        then show ?thesis by (rule Cons.IH)
      qed
    qed
  qed
qed

lemma somma_sicura_Inr:
  "somma_sicura c v \<Longrightarrow> (d, s) \<in> set v \<Longrightarrow> somma c s = Inr (somma_pura c s)"
  unfolding somma_sicura_def by (cases s) (auto simp: image_iff)

lemma somma_sicura_Cons: "somma_sicura c (p # v) \<Longrightarrow> somma_sicura c v"
  unfolding somma_sicura_def by auto

lemma somma_sicura_append: "somma_sicura c (xs @ ys) \<Longrightarrow> somma_sicura c xs"
  unfolding somma_sicura_def by auto

lemma migliora_Cons_altro:
  "d \<noteq> dest \<Longrightarrow> migliora m c ((dest, dm) # resto) d = migliora m c resto d"
  by (simp add: fun_eq_iff migliora_def)

lemma migliora_assente:
  "map_of v d = None \<Longrightarrow> migliora m c v d = (\<lambda>e. e)"
  by (simp add: fun_eq_iff migliora_def)

lemma aggiorna_ciclo_ok:
  assumes "distinct (map fst v)" and "fst ` set v \<subseteq> fst ` set t" and "somma_sicura c v"
  shows "\<exists>b' t'. aggiorna_ciclo m c v t b = (Inr b', t') \<and>
           (\<forall>d. map_of t' d = map_option (migliora m c v d) (map_of t d)) \<and>
           (b' \<longleftrightarrow> b \<or> (\<exists>d s e. map_of v d = Some s \<and> map_of t d = Some e \<and>
                               minore (somma_pura c s) (snd e)))"
  using assms
proof (induction v arbitrary: t b)
  case Nil
  then show ?case by (simp add: migliora_def option.map_ident)
next
  case (Cons p resto)
  obtain dest dm where p: "p = (dest, dm)" by (cases p)
  from Cons.prems(1,2) p have nin: "dest \<notin> fst ` set resto" and dr: "distinct (map fst resto)"
    and sub: "fst ` set resto \<subseteq> fst ` set t" and din: "dest \<in> fst ` set t"
    by auto
  have sr: "somma_sicura c resto" using Cons.prems(3) by (rule somma_sicura_Cons)
  have ok: "somma c dm = Inr (somma_pura c dm)"
    using Cons.prems(3) p by (intro somma_sicura_Inr [where d = dest and v = "p # resto"]) simp_all
  from din obtain e where e: "map_of t dest = Some e"
    by (metis domD dom_map_of_conv_image_fst)
  obtain h cur where hc: "e = (h, cur)" by (cases e)
  have nr: "map_of resto dest = None"
    using nin by (simp add: map_of_eq_None_iff)
  show ?case
  proof (cases "minore (somma_pura c dm) cur")
    case True
    let ?t1 = "AList.update dest (Some m, somma_pura c dm) t"
    have sub1: "fst ` set resto \<subseteq> fst ` set ?t1"
      using sub by (auto simp: dom_update)
    from Cons.IH [OF dr sub1 sr, of True]
    obtain b' t' where r: "aggiorna_ciclo m c resto ?t1 True = (Inr b', t')"
      and mp: "\<forall>d. map_of t' d = map_option (migliora m c resto d) (map_of ?t1 d)"
      and bb: "b'" by auto
    have "aggiorna_ciclo m c (p # resto) t b = (Inr b', t')"
      using r e hc True p ok by simp
    moreover have "map_of t' d = map_option (migliora m c (p # resto) d) (map_of t d)" for d
      using mp [rule_format, of d] e hc True p nr
      by (cases "d = dest") (auto simp: update_conv' migliora_def migliora_Cons_altro)
    moreover have "\<exists>d s e. map_of (p # resto) d = Some s \<and> map_of t d = Some e \<and>
                               minore (somma_pura c s) (snd e)"
      using e hc True p by (intro exI [of _ dest]) auto
    ultimately show ?thesis using bb by blast
  next
    case False
    from Cons.IH [OF dr sub sr, of b]
    obtain b' t' where r: "aggiorna_ciclo m c resto t b = (Inr b', t')"
      and mp: "\<forall>d. map_of t' d = map_option (migliora m c resto d) (map_of t d)"
      and bb: "b' \<longleftrightarrow> b \<or> (\<exists>d s e. map_of resto d = Some s \<and> map_of t d = Some e \<and>
                               minore (somma_pura c s) (snd e))" by auto
    have "aggiorna_ciclo m c (p # resto) t b = (Inr b', t')"
      using r e hc False p ok by simp
    moreover have "map_of t' d = map_option (migliora m c (p # resto) d) (map_of t d)" for d
      using mp [rule_format, of d] e hc False p nr
      by (cases "d = dest") (auto simp: migliora_def migliora_Cons_altro)
    moreover have "(\<exists>d s e. map_of (p # resto) d = Some s \<and> map_of t d = Some e \<and>
                               minore (somma_pura c s) (snd e)) \<longleftrightarrow>
                   (\<exists>d s e. map_of resto d = Some s \<and> map_of t d = Some e \<and>
                               minore (somma_pura c s) (snd e))"
    proof (intro iffI; elim exE conjE)
      fix d s e'
      assume a: "map_of (p # resto) d = Some s" "map_of t d = Some e'" "minore (somma_pura c s) (snd e')"
      have "d \<noteq> dest" using a e hc False p by auto
      then show "\<exists>d s e. map_of resto d = Some s \<and> map_of t d = Some e \<and>
                               minore (somma_pura c s) (snd e)"
        using a p by (intro exI [of _ d] exI [of _ s] exI [of _ e']) simp
    next
      fix d s e'
      assume a: "map_of resto d = Some s" "map_of t d = Some e'" "minore (somma_pura c s) (snd e')"
      have "d \<noteq> dest" using a nr by auto
      then show "\<exists>d s e. map_of (p # resto) d = Some s \<and> map_of t d = Some e \<and>
                               minore (somma_pura c s) (snd e)"
        using a p by (intro exI [of _ d] exI [of _ s] exI [of _ e']) simp
    qed
    ultimately show ?thesis using bb by simp
  qed
qed

lemma aggiorna_ciclo_errore:
  assumes "fst ` set pre \<subseteq> fst ` set t" and "d \<notin> fst ` set t"
    and "somma_sicura c (pre @ [(d, s)])"
  shows "aggiorna_ciclo m c (pre @ (d, s) # post) t b =
           (Inl KeyError, snd (aggiorna_ciclo m c pre t b))"
  using assms
proof (induction pre arbitrary: t b)
  case Nil
  then have "map_of t d = None" by (simp add: map_of_eq_None_iff)
  moreover have "somma c s = Inr (somma_pura c s)"
    using Nil.prems(3) by (intro somma_sicura_Inr [where d = d and v = "[(d, s)]"]) simp_all
  ultimately show ?case by simp
next
  case (Cons p pre)
  obtain dest dm where p: "p = (dest, dm)" by (cases p)
  have "dest \<in> fst ` set t" using Cons.prems p by auto
  then obtain e where e: "map_of t dest = Some e"
    by (metis domD dom_map_of_conv_image_fst)
  obtain h cur where hc: "e = (h, cur)" by (cases e)
  have sr: "somma_sicura c (pre @ [(d, s)])"
    using Cons.prems(3) by (simp add: somma_sicura_Cons [of c p])
  have ok: "somma c dm = Inr (somma_pura c dm)"
    using Cons.prems(3) p
    by (intro somma_sicura_Inr [where d = dest and v = "(p # pre) @ [(d, s)]"]) simp_all
  show ?case
  proof (cases "minore (somma_pura c dm) cur")
    case True
    let ?t1 = "AList.update dest (Some m, somma_pura c dm) t"
    have "fst ` set pre \<subseteq> fst ` set ?t1" "d \<notin> fst ` set ?t1"
      using Cons.prems(1,2) p e by (auto simp: dom_update dest: map_of_SomeD)
    from Cons.IH [OF this sr, of True] show ?thesis using e hc True p ok by simp
  next
    case False
    have "fst ` set pre \<subseteq> fst ` set t" using Cons.prems(1) by auto
    from Cons.IH [OF this Cons.prems(2) sr, of b] show ?thesis using e hc False p ok by simp
  qed
qed

text \<open>
  C4. After \<^verbatim>\<open>inizializza_tabella(tutti_i_nodi)\<close> the routing table has exactly one
  entry per name in \<^verbatim>\<open>tutti_i_nodi\<close> (and no other key): \<open>(nome, 0)\<close> for the node's
  own name, \<open>(d, costo)\<close> for a name \<open>d\<close> in \<^verbatim>\<open>vicini\<close>, and \<open>(None, inf)\<close> for
  every other name. Name and neighbours of the node are not touched.
\<close>

theorem inizializza_tabella_voci:
  "nome (inizializza_tabella n tutti) = nome n \<and>
   vicini (inizializza_tabella n tutti) = vicini n \<and>
   distinct (map fst (tabella_routing (inizializza_tabella n tutti))) \<and>
   fst ` set (tabella_routing (inizializza_tabella n tutti)) = set tutti \<and>
   (\<forall>d \<in> set tutti.
      map_of (tabella_routing (inizializza_tabella n tutti)) d =
        Some (if d = nome n then (Some (nome n), Fin 0)
              else case map_of (vicini n) d of
                     Some c \<Rightarrow> (Some d, Fin c)
                   | None \<Rightarrow> (None, PInf)))"
  by (simp add: inizializza_tabella_def inizializza_ciclo_map_of inizializza_ciclo_distinct
        inizializza_ciclo_dom voce_iniziale_def)

text \<open>The table of node A of \<^verbatim>\<open>main\<close>, read through the theorem of C4.\<close>

theorem inizializza_tabella_voci_witness:
  "map_of (tabella_routing (inizializza_tabella
       ((nodo_nuovo ''A'')\<lparr>vicini := [(''B'', 1), (''C'', 4)]\<rparr>) [''A'', ''B'', ''C'', ''D''])) ''A''
     = Some (Some ''A'', Fin 0) \<and>
   map_of (tabella_routing (inizializza_tabella
       ((nodo_nuovo ''A'')\<lparr>vicini := [(''B'', 1), (''C'', 4)]\<rparr>) [''A'', ''B'', ''C'', ''D''])) ''C''
     = Some (Some ''C'', Fin 4) \<and>
   map_of (tabella_routing (inizializza_tabella
       ((nodo_nuovo ''A'')\<lparr>vicini := [(''B'', 1), (''C'', 4)]\<rparr>) [''A'', ''B'', ''C'', ''D''])) ''D''
     = Some (None, PInf)"
  using inizializza_tabella_voci
    [of "(nodo_nuovo ''A'')\<lparr>vicini := [(''B'', 1), (''C'', 4)]\<rparr>" "[''A'', ''B'', ''C'', ''D'']"]
  by (simp add: nodo_nuovo_def)

text \<open>
  C3, as the code behaves. When the sender is in \<^verbatim>\<open>vicini\<close> (with cost \<open>c\<close>), every
  destination of the vector is a key of the table, and no sum \<open>c + s\<close> overflows
  (\<open>c\<close> is below \<open>2^1024 - 2^970\<close> in absolute value, or no distance of the vector is
  infinite), \<^verbatim>\<open>aggiorna_tabella\<close> raises nothing; the entry of a destination \<open>d\<close>
  becomes \<open>(mittente, c + s)\<close> exactly when the vector gives \<open>s\<close> for \<open>d\<close> and
  \<open>c + s\<close> is strictly less than the stored distance (a tie keeps the stored route);
  every other entry, the order of the keys, the name and the neighbours stay as they are;
  and the value returned is \<^verbatim>\<open>True\<close> if and only if some entry changed.
\<close>

theorem aggiorna_tabella_regola:
  assumes "map_of (vicini n) mittente = Some c"
      and "distinct (map fst v)"
      and "fst ` set v \<subseteq> fst ` set (tabella_routing n)"
      and "somma_sicura c v"
  shows "\<exists>b n'. aggiorna_tabella n mittente v = (Inr b, n') \<and>
           nome n' = nome n \<and> vicini n' = vicini n \<and>
           map fst (tabella_routing n') = map fst (tabella_routing n) \<and>
           (\<forall>d via x. map_of (tabella_routing n) d = Some (via, x) \<longrightarrow>
              map_of (tabella_routing n') d =
                Some (case map_of v d of
                        None \<Rightarrow> (via, x)
                      | Some s \<Rightarrow> if minore (somma_pura c s) x then (Some mittente, somma_pura c s)
                                  else (via, x))) \<and>
           (b \<longleftrightarrow> (\<exists>d s via x. map_of v d = Some s \<and>
                      map_of (tabella_routing n) d = Some (via, x) \<and> minore (somma_pura c s) x)) \<and>
           (b \<longleftrightarrow> tabella_routing n' \<noteq> tabella_routing n)"
proof -
  let ?t = "tabella_routing n"
  from aggiorna_ciclo_ok [OF assms(2,3,4), where m = mittente and b = False]
  obtain b t' where r: "aggiorna_ciclo mittente c v ?t False = (Inr b, t')"
    and mp: "\<And>d. map_of t' d = map_option (migliora mittente c v d) (map_of ?t d)"
    and bb: "b \<longleftrightarrow> (\<exists>d s e. map_of v d = Some s \<and> map_of ?t d = Some e \<and>
                               minore (somma_pura c s) (snd e))"
    by auto
  let ?n' = "n\<lparr>tabella_routing := t'\<rparr>"
  have 1: "aggiorna_tabella n mittente v = (Inr b, ?n')"
    using r assms(1) by (simp add: aggiorna_tabella_def)
  have 2: "map fst t' = map fst ?t"
    using aggiorna_ciclo_keys [of mittente c v ?t False] r by simp
  have 3: "map_of t' d = Some (case map_of v d of
                        None \<Rightarrow> (via, x)
                      | Some s \<Rightarrow> if minore (somma_pura c s) x then (Some mittente, somma_pura c s)
                                  else (via, x))"
    if "map_of ?t d = Some (via, x)" for d via x
    using mp [of d] that by (simp add: migliora_def split: option.splits)
  have 4: "b \<longleftrightarrow> (\<exists>d s via x. map_of v d = Some s \<and>
                      map_of ?t d = Some (via, x) \<and> minore (somma_pura c s) x)"
    unfolding bb by auto
  have 5: "b \<longleftrightarrow> t' \<noteq> ?t"
  proof
    assume b
    then obtain d s via x where i: "map_of v d = Some s" "map_of ?t d = Some (via, x)"
      "minore (somma_pura c s) x" using 4 by blast
    then have "map_of t' d = Some (Some mittente, somma_pura c s)" using 3 [of d via x] by simp
    moreover have "somma_pura c s \<noteq> x" using i(3) by auto
    ultimately show "t' \<noteq> ?t" using i(2) by auto
  next
    assume "t' \<noteq> ?t"
    then show b using aggiorna_ciclo_False [of mittente c v ?t False t'] r by (cases b) auto
  qed
  show ?thesis
    using 1 2 3 4 5 by (intro exI [of _ b] exI [of _ ?n']) simp
qed

text \<open>Node A of \<^verbatim>\<open>main\<close> receiving the first vector of B.\<close>

theorem aggiorna_tabella_regola_witness:
  "aggiorna_tabella
     \<lparr>nome = ''A'', vicini = [(''B'', 1), (''C'', 4)],
      tabella_routing = [(''A'', Some ''A'', Fin 0), (''B'', Some ''B'', Fin 1),
                         (''C'', Some ''C'', Fin 4), (''D'', None, PInf)]\<rparr>
     ''B'' [(''A'', Fin 1), (''B'', Fin 0), (''C'', Fin 2), (''D'', Fin 7)]
   = (Inr True,
     \<lparr>nome = ''A'', vicini = [(''B'', 1), (''C'', 4)],
      tabella_routing = [(''A'', Some ''A'', Fin 0), (''B'', Some ''B'', Fin 1),
                         (''C'', Some ''B'', Fin 3), (''D'', Some ''B'', Fin 8)]\<rparr>)"
  using aggiorna_tabella_regola
    [of "\<lparr>nome = ''A'', vicini = [(''B'', 1), (''C'', 4)],
      tabella_routing = [(''A'', Some ''A'', Fin 0), (''B'', Some ''B'', Fin 1),
                         (''C'', Some ''C'', Fin 4), (''D'', None, PInf)]\<rparr>"
        "''B''" 1 "[(''A'', Fin 1), (''B'', Fin 0), (''C'', Fin 2), (''D'', Fin 7)]"]
  by (simp add: aggiorna_tabella_def somma_sicura_def)

text \<open>
  C3 as worded asks only for an initialised table and a sender in \<^verbatim>\<open>vicini\<close>. Node A,
  initialised over A, B, C with neighbour B, receives from B a vector whose second
  destination W is not in its table: the entry of C changes from \<open>(None, inf)\<close> to
  \<open>(B, 3)\<close> and the call raises \<^verbatim>\<open>KeyError\<close>, so it returns no value although an entry
  changed. With a link of cost \<open>2^1024\<close> and a vector giving an infinite distance, the
  sum itself raises \<^verbatim>\<open>OverflowError\<close>.
\<close>

theorem aggiorna_tabella_regola_controesempio:
  "map_of (vicini ((nodo_nuovo ''A'')\<lparr>vicini := [(''B'', 1)]\<rparr>)) ''B'' = Some 1 \<and>
   map_of (tabella_routing
      (inizializza_tabella ((nodo_nuovo ''A'')\<lparr>vicini := [(''B'', 1)]\<rparr>) [''A'', ''B'', ''C'']))
      ''C'' = Some (None, PInf) \<and>
   aggiorna_tabella
      (inizializza_tabella ((nodo_nuovo ''A'')\<lparr>vicini := [(''B'', 1)]\<rparr>) [''A'', ''B'', ''C''])
      ''B'' [(''C'', Fin 2), (''W'', Fin 0)]
   = (Inl KeyError,
      \<lparr>nome = ''A'', vicini = [(''B'', 1)],
       tabella_routing = [(''A'', Some ''A'', Fin 0), (''B'', Some ''B'', Fin 1),
                          (''C'', Some ''B'', Fin 3)]\<rparr>) \<and>
   aggiorna_tabella
      (inizializza_tabella ((nodo_nuovo ''A'')\<lparr>vicini := [(''B'', 2 ^ 1024)]\<rparr>) [''A'', ''B'', ''C''])
      ''B'' [(''C'', PInf)]
   = (Inl OverflowError,
      inizializza_tabella ((nodo_nuovo ''A'')\<lparr>vicini := [(''B'', 2 ^ 1024)]\<rparr>) [''A'', ''B'', ''C''])"
  by (simp add: aggiorna_tabella_def inizializza_tabella_def nodo_nuovo_def voce_iniziale_def
        convertibile_def)

text \<open>
  C10, as the code behaves. When the vector holds a destination \<open>d\<close> that is not a key of
  the table, all destinations before it in the vector are keys, and no sum up to and
  including the one for \<open>d\<close> overflows (the sum is computed before the table is read, so an
  overflowing sum raises \<^verbatim>\<open>OverflowError\<close> first), the call raises \<^verbatim>\<open>KeyError\<close> and the
  table is left as the updates of the destinations before \<open>d\<close> made it (they are not
  undone, and nothing after \<open>d\<close> is read). No call, failing or not, adds or removes a
  key: the keys of the table stay the ones initialisation gave it.
\<close>

theorem aggiorna_tabella_destinazione_ignota:
  assumes "fst ` set pre \<subseteq> fst ` set (tabella_routing n)"
      and "d \<notin> fst ` set (tabella_routing n)"
      and "\<forall>c. map_of (vicini n) m = Some c \<longrightarrow> somma_sicura c (pre @ [(d, s)])"
  shows "aggiorna_tabella n m (pre @ (d, s) # post) =
           (Inl KeyError, snd (aggiorna_tabella n m pre)) \<and>
         (\<forall>v. map fst (tabella_routing (snd (aggiorna_tabella n m v))) =
                map fst (tabella_routing n))"
proof -
  have "aggiorna_tabella n m (pre @ (d, s) # post) =
           (Inl KeyError, snd (aggiorna_tabella n m pre))"
  proof (cases "map_of (vicini n) m")
    case None
    then show ?thesis by (simp add: aggiorna_tabella_def)
  next
    case (Some c)
    with assms(3) have "somma_sicura c (pre @ [(d, s)])" by simp
    from aggiorna_ciclo_errore [OF assms(1,2) this, of m post False] Some
    show ?thesis by (simp add: aggiorna_tabella_def split: prod.splits)
  qed
  moreover have "map fst (tabella_routing (snd (aggiorna_tabella n m v))) =
                map fst (tabella_routing n)" for v
  proof (cases "map_of (vicini n) m")
    case None
    then show ?thesis by (simp add: aggiorna_tabella_def)
  next
    case (Some c)
    obtain r t' where "aggiorna_ciclo m c v (tabella_routing n) False = (r, t')"
      by (cases "aggiorna_ciclo m c v (tabella_routing n) False")
    then show ?thesis
      using Some aggiorna_ciclo_keys [of m c v "tabella_routing n" False]
      by (simp add: aggiorna_tabella_def)
  qed
  ultimately show ?thesis by blast
qed

text \<open>A table with keys A and C receiving a vector whose second destination is unknown.\<close>

theorem aggiorna_tabella_destinazione_ignota_witness:
  "aggiorna_tabella (inizializza_tabella ((nodo_nuovo ''A'')\<lparr>vicini := [(''B'', 1)]\<rparr>) [''A'', ''C''])
      ''B'' [(''C'', Fin 2), (''Z'', Fin 0), (''A'', Fin 5)]
   = (Inl KeyError,
      \<lparr>nome = ''A'', vicini = [(''B'', 1)],
       tabella_routing = [(''A'', Some ''A'', Fin 0), (''C'', Some ''B'', Fin 3)]\<rparr>)"
  using aggiorna_tabella_destinazione_ignota
    [of "[(''C'', Fin 2)]"
        "inizializza_tabella ((nodo_nuovo ''A'')\<lparr>vicini := [(''B'', 1)]\<rparr>) [''A'', ''C'']"
        "''Z''" "''B''" "Fin 0" "[(''A'', Fin 5)]"]
  by (simp add: aggiorna_tabella_def inizializza_tabella_def nodo_nuovo_def voce_iniziale_def
        somma_sicura_def)

text \<open>
  C10 as worded says that no entry is modified before the failing destination is reached.
  Here the entry of C is \<open>(None, inf)\<close> before the call and \<open>(B, 3)\<close> after it, although
  the call raises \<^verbatim>\<open>KeyError\<close> at the next destination.
\<close>

theorem aggiorna_tabella_errore_controesempio:
  "fst (aggiorna_tabella
          (inizializza_tabella ((nodo_nuovo ''A'')\<lparr>vicini := [(''B'', 1)]\<rparr>) [''A'', ''C''])
          ''B'' [(''C'', Fin 2), (''Z'', Fin 0)]) = Inl KeyError \<and>
   map_of (tabella_routing
          (inizializza_tabella ((nodo_nuovo ''A'')\<lparr>vicini := [(''B'', 1)]\<rparr>) [''A'', ''C'']))
      ''C'' = Some (None, PInf) \<and>
   map_of (tabella_routing (snd (aggiorna_tabella
          (inizializza_tabella ((nodo_nuovo ''A'')\<lparr>vicini := [(''B'', 1)]\<rparr>) [''A'', ''C''])
          ''B'' [(''C'', Fin 2), (''Z'', Fin 0)])))
      ''C'' = Some (Some ''B'', Fin 3)"
  by (simp add: aggiorna_tabella_def inizializza_tabella_def nodo_nuovo_def voce_iniziale_def)

section \<open>One round\<close>

lemma aggiorna_tabella_campi:
  "nome (snd (aggiorna_tabella n m v)) = nome n \<and>
   vicini (snd (aggiorna_tabella n m v)) = vicini n \<and>
   map fst (tabella_routing (snd (aggiorna_tabella n m v))) = map fst (tabella_routing n)"
proof (cases "map_of (vicini n) m")
  case None
  then show ?thesis by (simp add: aggiorna_tabella_def)
next
  case (Some c)
  obtain r t' where "aggiorna_ciclo m c v (tabella_routing n) False = (r, t')"
    by (cases "aggiorna_ciclo m c v (tabella_routing n) False")
  then show ?thesis
    using Some aggiorna_ciclo_keys [of m c v "tabella_routing n" False]
    by (simp add: aggiorna_tabella_def)
qed

lemma aggiorna_tabella_False:
  "aggiorna_tabella n m v = (Inr False, n') \<Longrightarrow> n' = n"
proof (cases "map_of (vicini n) m")
  case None
  assume "aggiorna_tabella n m v = (Inr False, n')"
  with None show ?thesis by (simp add: aggiorna_tabella_def)
next
  case (Some c)
  assume a: "aggiorna_tabella n m v = (Inr False, n')"
  obtain r t' where r: "aggiorna_ciclo m c v (tabella_routing n) False = (r, t')"
    by (cases "aggiorna_ciclo m c v (tabella_routing n) False")
  with a Some have "r = Inr False" "n' = n\<lparr>tabella_routing := t'\<rparr>"
    by (auto simp: aggiorna_tabella_def)
  with r aggiorna_ciclo_False [of m c v "tabella_routing n" False t'] show ?thesis by simp
qed

lemma aggiorna_tabella_mono:
  assumes "map_of (tabella_routing n) d = Some (via, x)"
  shows "\<exists>via' x'. map_of (tabella_routing (snd (aggiorna_tabella n m v))) d = Some (via', x') \<and>
           minore_uguale x' x"
proof (cases "map_of (vicini n) m")
  case None
  then show ?thesis using assms by (simp add: aggiorna_tabella_def)
next
  case (Some c)
  obtain r t' where r: "aggiorna_ciclo m c v (tabella_routing n) False = (r, t')"
    by (cases "aggiorna_ciclo m c v (tabella_routing n) False")
  then show ?thesis
    using Some aggiorna_ciclo_mono [OF assms, of m c v False]
    by (simp add: aggiorna_tabella_def)
qed

lemma ciclo_vicini_conta:
  "ciclo_vicini nm v vs nodi a = (Inr a', nodi') \<Longrightarrow> a \<le> a' \<and> (a' = a \<longrightarrow> nodi' = nodi)"
proof (induction vs arbitrary: nodi a)
  case Nil
  then show ?case by simp
next
  case (Cons vic vs)
  from Cons.prems obtain nd where nd: "map_of nodi vic = Some nd"
    by (cases "map_of nodi vic") auto
  obtain r nd' where ag: "aggiorna_tabella nd nm v = (r, nd')"
    by (cases "aggiorna_tabella nd nm v")
  from Cons.prems nd ag obtain b where b: "r = Inr b"
    by (cases r) auto
  let ?a1 = "if b then a + 1 else a"
  have rec: "ciclo_vicini nm v vs (AList.update vic nd' nodi) ?a1 = (Inr a', nodi')"
    using Cons.prems nd ag b by simp
  from Cons.IH [OF rec] have le: "?a1 \<le> a'" and eq: "a' = ?a1 \<longrightarrow> nodi' = AList.update vic nd' nodi"
    by auto
  have "a \<le> a'" using le by (auto split: if_splits)
  moreover have "nodi' = nodi" if "a' = a"
  proof -
    from that le have nb: "\<not> b" by (auto split: if_splits)
    with ag b have "nd' = nd" using aggiorna_tabella_False by simp
    with eq that nb nd show ?thesis by (simp add: update_triv)
  qed
  ultimately show ?case by simp
qed

lemma ciclo_snapshot_conta:
  "ciclo_snapshot snap nodi a = (Inr a', nodi') \<Longrightarrow> a \<le> a' \<and> (a' = a \<longrightarrow> nodi' = nodi)"
proof (induction snap arbitrary: nodi a)
  case Nil
  then show ?case by simp
next
  case (Cons p snap)
  obtain nm nodo where p: "p = (nm, nodo)" by (cases p)
  obtain r n1 where cv: "ciclo_vicini nm (invia_vettore nodo) (map fst (vicini nodo)) nodi a = (r, n1)"
    by (cases "ciclo_vicini nm (invia_vettore nodo) (map fst (vicini nodo)) nodi a")
  from Cons.prems p cv obtain a1 where a1: "r = Inr a1" by (cases r) auto
  have rec: "ciclo_snapshot snap n1 a1 = (Inr a', nodi')"
    using Cons.prems p cv a1 by simp
  from ciclo_vicini_conta [OF cv [unfolded a1]] Cons.IH [OF rec]
  show ?case by auto
qed

lemma iterazione_zero:
  "iterazione nodi = (Inr 0, nodi') \<Longrightarrow> nodi' = nodi"
  using ciclo_snapshot_conta [of nodi nodi 0 0 nodi'] by (simp add: iterazione_def)

text \<open>
  C9. If a round started in state \<open>nodi\<close> ends with \<^verbatim>\<open>aggiornamenti == 0\<close>, it has left
  every table as it was, and one more round from that state again ends with
  \<^verbatim>\<open>aggiornamenti == 0\<close> and changes nothing.
\<close>

theorem punto_fisso_stabile:
  assumes "iterazione nodi = (Inr 0, nodi')"
  shows "nodi' = nodi \<and> iterazione nodi' = (Inr 0, nodi')"
  using assms iterazione_zero [OF assms] by simp

subsection \<open>Invariants of the two loops of a round\<close>

lemma ciclo_vicini_inv:
  assumes "P nodi"
    and "\<And>cur vic nd. P cur \<Longrightarrow> vic \<in> set vs \<Longrightarrow> map_of cur vic = Some nd \<Longrightarrow>
           P (AList.update vic (snd (aggiorna_tabella nd nm v)) cur)"
  shows "P (snd (ciclo_vicini nm v vs nodi a))"
  using assms
proof (induction vs arbitrary: nodi a)
  case Nil
  then show ?case by simp
next
  case (Cons vic vs)
  show ?case
  proof (cases "map_of nodi vic")
    case None
    then show ?thesis using Cons.prems(1) by simp
  next
    case (Some nd)
    obtain r nd' where ag: "aggiorna_tabella nd nm v = (r, nd')"
      by (cases "aggiorna_tabella nd nm v")
    have P1: "P (AList.update vic nd' nodi)"
      using Cons.prems(2) [OF Cons.prems(1) _ Some] ag by simp
    show ?thesis
    proof (cases r)
      case (Inl e)
      then show ?thesis using Some ag P1 by simp
    next
      case (Inr b)
      have "P (snd (ciclo_vicini nm v vs (AList.update vic nd' nodi) (if b then a + 1 else a)))"
        using P1 Cons.prems(2) by (intro Cons.IH) auto
      then show ?thesis using Some ag Inr by simp
    qed
  qed
qed

lemma ciclo_snapshot_inv:
  assumes "P nodi"
    and "\<And>cur nm nodo vic nd. P cur \<Longrightarrow> (nm, nodo) \<in> set snap \<Longrightarrow>
           vic \<in> fst ` set (vicini nodo) \<Longrightarrow> map_of cur vic = Some nd \<Longrightarrow>
           P (AList.update vic (snd (aggiorna_tabella nd nm (invia_vettore nodo))) cur)"
  shows "P (snd (ciclo_snapshot snap nodi a))"
  using assms
proof (induction snap arbitrary: nodi a)
  case Nil
  then show ?case by simp
next
  case (Cons p snap)
  obtain nm nodo where p: "p = (nm, nodo)" by (cases p)
  obtain r n1 where cv: "ciclo_vicini nm (invia_vettore nodo) (map fst (vicini nodo)) nodi a = (r, n1)"
    by (cases "ciclo_vicini nm (invia_vettore nodo) (map fst (vicini nodo)) nodi a")
  have "P (snd (ciclo_vicini nm (invia_vettore nodo) (map fst (vicini nodo)) nodi a))"
    using Cons.prems(1)
  proof (rule ciclo_vicini_inv)
    fix cur vic nd
    assume "P cur" "vic \<in> set (map fst (vicini nodo))" "map_of cur vic = Some nd"
    then show "P (AList.update vic (snd (aggiorna_tabella nd nm (invia_vettore nodo))) cur)"
      using Cons.prems(2) [of cur nm nodo vic nd] p by simp
  qed
  then have P1: "P n1" using cv by simp
  show ?case
  proof (cases r)
    case (Inl e)
    then show ?thesis using p cv P1 by simp
  next
    case (Inr a1)
    have "P (snd (ciclo_snapshot snap n1 a1))"
      using P1 Cons.prems(2) by (intro Cons.IH) auto
    then show ?thesis using p cv Inr by simp
  qed
qed

lemma iterazione_inv:
  assumes "P nodi"
    and "\<And>cur nm nodo vic nd. P cur \<Longrightarrow> (nm, nodo) \<in> set nodi \<Longrightarrow>
           vic \<in> fst ` set (vicini nodo) \<Longrightarrow> map_of cur vic = Some nd \<Longrightarrow>
           P (AList.update vic (snd (aggiorna_tabella nd nm (invia_vettore nodo))) cur)"
  shows "P (passo nodi)"
  unfolding passo_def iterazione_def using assms by (rule ciclo_snapshot_inv)

subsection \<open>A round keeps the shape of the network\<close>

lemma forma_keys: "map fst (forma nodi) = map fst nodi"
  by (induction nodi) (auto simp: forma_def)

lemma forma_map_of:
  "map_of (forma nodi) k =
     map_option (\<lambda>n. (nome n, vicini n, map fst (tabella_routing n))) (map_of nodi k)"
  by (induction nodi) (auto simp: forma_def)

lemma forma_set:
  "set (forma nodi) = (\<lambda>(k, n). (k, nome n, vicini n, map fst (tabella_routing n))) ` set nodi"
  by (simp add: forma_def)

lemma forma_update:
  assumes "map_of cur vic = Some nd" "nome nd' = nome nd" "vicini nd' = vicini nd"
    "map fst (tabella_routing nd') = map fst (tabella_routing nd)"
  shows "forma (AList.update vic nd' cur) = forma cur"
  using assms by (induction cur) (auto simp: forma_def split: if_splits)

lemma forma_update_aggiorna:
  "map_of cur vic = Some nd \<Longrightarrow>
   forma (AList.update vic (snd (aggiorna_tabella nd m v)) cur) = forma cur"
  by (rule forma_update) (simp_all add: aggiorna_tabella_campi)

lemma forma_passo: "forma (passo nodi) = forma nodi"
  by (rule iterazione_inv [where P = "\<lambda>cur. forma cur = forma nodi"])
     (simp_all add: forma_update_aggiorna)

lemma forma_same_keys: "forma a = forma b \<Longrightarrow> map fst a = map fst b"
  by (metis forma_keys)

lemma forma_same_map_of:
  assumes "forma a = forma b" "map_of a k = Some n"
  shows "\<exists>n'. map_of b k = Some n' \<and> nome n' = nome n \<and> vicini n' = vicini n \<and>
           map fst (tabella_routing n') = map fst (tabella_routing n)"
proof -
  have "map_of (forma b) k = Some (nome n, vicini n, map fst (tabella_routing n))"
    using assms forma_map_of [of a k] by simp
  then show ?thesis by (auto simp: forma_map_of)
qed

lemma forma_same_set:
  assumes "forma a = forma b" "(k, n) \<in> set a"
  shows "\<exists>n'. (k, n') \<in> set b \<and> nome n' = nome n \<and> vicini n' = vicini n \<and>
           map fst (tabella_routing n') = map fst (tabella_routing n)"
proof -
  have "(k, nome n, vicini n, map fst (tabella_routing n)) \<in> set (forma a)"
    unfolding forma_set using assms(2) by (intro image_eqI [where x = "(k, n)"]) simp_all
  then have "(k, nome n, vicini n, map fst (tabella_routing n)) \<in> set (forma b)"
    using assms(1) by simp
  then show ?thesis unfolding forma_set by auto
qed

lemma topologia_validaI:
  assumes "distinct (map fst nodi)"
    and "\<And>k n. (k, n) \<in> set nodi \<Longrightarrow> nome n = k"
    and "\<And>k n v. (k, n) \<in> set nodi \<Longrightarrow> v \<in> fst ` set (vicini n) \<Longrightarrow>
           \<exists>nv. map_of nodi v = Some nv \<and> k \<in> fst ` set (vicini nv)"
  shows "topologia_valida nodi"
  unfolding topologia_valida_def
proof (intro conjI ballI)
  show "distinct (map fst nodi)" by fact
next
  fix p assume p: "p \<in> set nodi"
  obtain k n where kn: "p = (k, n)" by (cases p)
  have "nome n = k" using assms(2) p kn by simp
  moreover have "\<forall>v \<in> fst ` set (vicini n).
           case map_of nodi v of None \<Rightarrow> False | Some nv \<Rightarrow> k \<in> fst ` set (vicini nv)"
  proof
    fix v assume "v \<in> fst ` set (vicini n)"
    with assms(3) [of k n v] p kn obtain nv where "map_of nodi v = Some nv" "k \<in> fst ` set (vicini nv)"
      by blast
    then show "case map_of nodi v of None \<Rightarrow> False | Some nv \<Rightarrow> k \<in> fst ` set (vicini nv)"
      by simp
  qed
  ultimately show "case p of (k, n) \<Rightarrow> nome n = k \<and>
        (\<forall>v \<in> fst ` set (vicini n).
           case map_of nodi v of None \<Rightarrow> False | Some nv \<Rightarrow> k \<in> fst ` set (vicini nv))"
    using kn by simp
qed

lemma topologia_valida_distinct: "topologia_valida nodi \<Longrightarrow> distinct (map fst nodi)"
  by (simp add: topologia_valida_def)

lemma topologia_valida_nome:
  "topologia_valida nodi \<Longrightarrow> (k, n) \<in> set nodi \<Longrightarrow> nome n = k"
  unfolding topologia_valida_def by (elim conjE) (drule (1) bspec, simp)

lemma topologia_valida_vicino:
  assumes "topologia_valida nodi" "(k, n) \<in> set nodi" "v \<in> fst ` set (vicini n)"
  shows "\<exists>nv. map_of nodi v = Some nv \<and> k \<in> fst ` set (vicini nv)"
proof -
  from assms(1,2) have "\<forall>v \<in> fst ` set (vicini n).
           case map_of nodi v of None \<Rightarrow> False | Some nv \<Rightarrow> k \<in> fst ` set (vicini nv)"
    unfolding topologia_valida_def by (elim conjE) (drule (1) bspec, simp)
  with assms(3) have "case map_of nodi v of None \<Rightarrow> False | Some nv \<Rightarrow> k \<in> fst ` set (vicini nv)"
    by (rule bspec [rotated])
  then show ?thesis by (cases "map_of nodi v") simp_all
qed

lemma stato_valido_topologia: "stato_valido nodi \<Longrightarrow> topologia_valida nodi"
  by (simp add: stato_valido_def)

lemma stato_valido_chiavi:
  "stato_valido nodi \<Longrightarrow> (k, n) \<in> set nodi \<Longrightarrow> map fst (tabella_routing n) = map fst nodi"
  unfolding stato_valido_def by (elim conjE) (drule (1) bspec, simp)

lemma stato_validoI:
  assumes "topologia_valida nodi"
    and "\<And>k n. (k, n) \<in> set nodi \<Longrightarrow> map fst (tabella_routing n) = map fst nodi"
  shows "stato_valido nodi"
  unfolding stato_valido_def
proof (intro conjI ballI)
  show "topologia_valida nodi" by fact
next
  fix p assume "p \<in> set nodi"
  then show "case p of (k, n) \<Rightarrow> map fst (tabella_routing n) = map fst nodi"
    using assms(2) [of "fst p" "snd p"] by (simp add: case_prod_unfold)
qed

lemma stato_valido_forma:
  assumes "forma a = forma b" "stato_valido a"
  shows "stato_valido b"
proof -
  have keys: "map fst b = map fst a" using forma_same_keys [OF assms(1)] by simp
  have tv: "topologia_valida a" using assms(2) by (rule stato_valido_topologia)
  have orig: "\<exists>n. (k, n) \<in> set a \<and> nome n = nome n' \<and> vicini n = vicini n' \<and>
      map fst (tabella_routing n) = map fst (tabella_routing n')" if "(k, n') \<in> set b" for k n'
    using forma_same_set [OF assms(1) [symmetric] that] .
  have "topologia_valida b"
  proof (rule topologia_validaI)
    show "distinct (map fst b)" using topologia_valida_distinct [OF tv] keys by simp
  next
    fix k n' assume "(k, n') \<in> set b"
    from orig [OF this] obtain n where n: "(k, n) \<in> set a" "nome n = nome n'" by blast
    show "nome n' = k" using topologia_valida_nome [OF tv n(1)] n(2) by simp
  next
    fix k n' v assume kn: "(k, n') \<in> set b" and v: "v \<in> fst ` set (vicini n')"
    from orig [OF kn] obtain n where n: "(k, n) \<in> set a" "vicini n = vicini n'" by blast
    have "v \<in> fst ` set (vicini n)" using v n(2) by simp
    from topologia_valida_vicino [OF tv n(1) this]
    obtain nv where nv: "map_of a v = Some nv" "k \<in> fst ` set (vicini nv)" by blast
    from forma_same_map_of [OF assms(1) nv(1)]
    obtain nv' where "map_of b v = Some nv'" "vicini nv' = vicini nv" by blast
    then show "\<exists>nv. map_of b v = Some nv \<and> k \<in> fst ` set (vicini nv)"
      using nv(2) by simp
  qed
  then show ?thesis
  proof (rule stato_validoI)
    fix k n' assume "(k, n') \<in> set b"
    from orig [OF this] obtain n where n: "(k, n) \<in> set a"
      "map fst (tabella_routing n) = map fst (tabella_routing n')" by blast
    show "map fst (tabella_routing n') = map fst b"
      using stato_valido_chiavi [OF assms(2) n(1)] n(2) keys by simp
  qed
qed

lemma stato_valido_passo: "stato_valido nodi \<Longrightarrow> stato_valido (passo nodi)"
  using stato_valido_forma [OF forma_passo [symmetric]] by blast

lemma map_of_distinct_set:
  "distinct (map fst xs) \<Longrightarrow> (k, v) \<in> set xs \<longleftrightarrow> map_of xs k = Some v"
  by (auto dest: map_of_SomeD)

lemma stato_valido_inizializza:
  assumes "topologia_valida nodi"
  shows "stato_valido (inizializza_tutti nodi)"
proof (rule stato_validoI, rule topologia_validaI)
  let ?i = "inizializza_tutti nodi"
  have keys: "map fst ?i = map fst nodi"
    by (simp add: inizializza_tutti_def Let_def comp_def case_prod_unfold)
  have dk: "distinct (map fst nodi)" using assms by (rule topologia_valida_distinct)
  have mo: "map_of ?i k = map_option (\<lambda>n. inizializza_tabella n (map fst nodi)) (map_of nodi k)" for k
    by (simp add: inizializza_tutti_def Let_def map_of_map)
  show "distinct (map fst ?i)" using dk keys by simp
  {
    fix k n' assume kn: "(k, n') \<in> set ?i"
    then obtain n where n: "(k, n) \<in> set nodi" "n' = inizializza_tabella n (map fst nodi)"
      by (auto simp: inizializza_tutti_def Let_def)
    show "nome n' = k" using topologia_valida_nome [OF assms n(1)] n(2)
      by (simp add: inizializza_tabella_def)
    show "map fst (tabella_routing n') = map fst ?i"
      using n(2) inizializza_ciclo_keys [OF dk, of "[]" n] keys by (simp add: inizializza_tabella_def)
    fix v assume v: "v \<in> fst ` set (vicini n')"
    then have "v \<in> fst ` set (vicini n)" using n(2) by (simp add: inizializza_tabella_def)
    from topologia_valida_vicino [OF assms n(1) this]
    obtain nv where nv: "map_of nodi v = Some nv" "k \<in> fst ` set (vicini nv)" by auto
    then show "\<exists>nv. map_of ?i v = Some nv \<and> k \<in> fst ` set (vicini nv)"
      by (simp add: mo inizializza_tabella_def)
  }
qed

lemma costi_convertibiliD:
  assumes "costi_convertibili nodi" "(k, n) \<in> set nodi" "(v, c) \<in> set (vicini n)"
  shows "convertibile c"
proof -
  from assms(1,2) have "\<forall>(v, c) \<in> set (vicini n). convertibile c"
    unfolding costi_convertibili_def by blast
  with assms(3) show ?thesis by blast
qed

lemma costi_convertibiliI:
  assumes "\<And>k n v c. (k, n) \<in> set nodi \<Longrightarrow> (v, c) \<in> set (vicini n) \<Longrightarrow> convertibile c"
  shows "costi_convertibili nodi"
  unfolding costi_convertibili_def using assms by blast

lemma costi_convertibili_forma:
  assumes "forma a = forma b" "costi_convertibili a"
  shows "costi_convertibili b"
proof (rule costi_convertibiliI)
  fix k n' v c
  assume kn: "(k, n') \<in> set b" and vc: "(v, c) \<in> set (vicini n')"
  from forma_same_set [OF assms(1) [symmetric] kn]
  obtain n where "(k, n) \<in> set a" "vicini n = vicini n'" by blast
  then show "convertibile c" using costi_convertibiliD [OF assms(2), of k n v c] vc by simp
qed

lemma costi_convertibili_passo: "costi_convertibili nodi \<Longrightarrow> costi_convertibili (passo nodi)"
  using costi_convertibili_forma [OF forma_passo [symmetric]] by blast

lemma costi_convertibili_inizializza:
  assumes "costi_convertibili nodi"
  shows "costi_convertibili (inizializza_tutti nodi)"
proof (rule costi_convertibiliI)
  fix k n' v c
  assume kn: "(k, n') \<in> set (inizializza_tutti nodi)" and vc: "(v, c) \<in> set (vicini n')"
  then obtain n where "(k, n) \<in> set nodi" "vicini n' = vicini n"
    by (auto simp: inizializza_tutti_def Let_def inizializza_tabella_def)
  then show "convertibile c" using costi_convertibiliD [OF assms, of k n v c] vc by simp
qed

subsection \<open>Where an entry comes from; a round on a valid state raises nothing\<close>

lemma minore_trans: "minore x y \<Longrightarrow> minore y z \<Longrightarrow> minore x z"
  by (cases x; cases y; cases z) auto

lemma minore_le_trans: "minore x y \<Longrightarrow> minore_uguale y z \<Longrightarrow> minore x z"
  by (cases x; cases y; cases z) auto

lemma aggiorna_ciclo_voce:
  assumes "map_of (snd (aggiorna_ciclo m c v t b)) d = Some e'"
  shows "\<exists>e. map_of t d = Some e \<and>
           (e' = e \<or> (\<exists>s. (d, s) \<in> set v \<and> e' = (Some m, somma_pura c s) \<and>
                           minore (somma_pura c s) (snd e)))"
  using assms
proof (induction v arbitrary: t b)
  case Nil
  then show ?case by simp
next
  case (Cons p resto)
  obtain dest dm where p: "p = (dest, dm)" by (cases p)
  consider (overflow) "somma c dm = Inl OverflowError"
    | (ok) "somma c dm = Inr (somma_pura c dm)" by (rule somma_cases)
  then show ?case
  proof cases
    case overflow
    then show ?thesis using Cons.prems p by simp
  next
    case ok
    show ?thesis
  proof (cases "map_of t dest")
    case None
    then show ?thesis using Cons.prems p ok by simp
  next
    case (Some e0)
    obtain h cur where e0: "e0 = (h, cur)" by (cases e0)
    show ?thesis
    proof (cases "minore (somma_pura c dm) cur")
      case True
      let ?t1 = "AList.update dest (Some m, somma_pura c dm) t"
      have "map_of (snd (aggiorna_ciclo m c resto ?t1 True)) d = Some e'"
        using Cons.prems Some e0 True p ok by simp
      from Cons.IH [OF this] obtain e1 where e1: "map_of ?t1 d = Some e1"
        and alt: "e' = e1 \<or> (\<exists>s. (d, s) \<in> set resto \<and> e' = (Some m, somma_pura c s) \<and>
                           minore (somma_pura c s) (snd e1))" by blast
      show ?thesis
      proof (cases "d = dest")
        case True
        then have e1eq: "e1 = (Some m, somma_pura c dm)" using e1 by (simp add: update_conv')
        have md: "map_of t d = Some (h, cur)" using Some e0 \<open>d = dest\<close> by simp
        from alt show ?thesis
        proof
          assume "e' = e1"
          then have "(d, dm) \<in> set (p # resto) \<and> e' = (Some m, somma_pura c dm) \<and>
                     minore (somma_pura c dm) (snd (h, cur))"
            using e1eq p \<open>d = dest\<close> \<open>minore (somma_pura c dm) cur\<close> by simp
          then show ?thesis using md by blast
        next
          assume "\<exists>s. (d, s) \<in> set resto \<and> e' = (Some m, somma_pura c s) \<and>
                           minore (somma_pura c s) (snd e1)"
          then obtain s where s: "(d, s) \<in> set resto" "e' = (Some m, somma_pura c s)"
            "minore (somma_pura c s) (somma_pura c dm)" using e1eq by auto
          have "minore (somma_pura c s) (snd (h, cur))"
            using minore_trans [OF s(3) \<open>minore (somma_pura c dm) cur\<close>] by simp
          then have "(d, s) \<in> set (p # resto) \<and> e' = (Some m, somma_pura c s) \<and>
                     minore (somma_pura c s) (snd (h, cur))" using s by simp
          then show ?thesis using md by blast
        qed
      next
        case False
        then have "map_of t d = Some e1" using e1 by (simp add: update_conv')
        moreover have "e' = e1 \<or> (\<exists>s. (d, s) \<in> set (p # resto) \<and> e' = (Some m, somma_pura c s) \<and>
                           minore (somma_pura c s) (snd e1))" using alt by auto
        ultimately show ?thesis by blast
      qed
    next
      case False
      have "map_of (snd (aggiorna_ciclo m c resto t b)) d = Some e'"
        using Cons.prems Some e0 False p ok by simp
      from Cons.IH [OF this] obtain e where "map_of t d = Some e"
        and "e' = e \<or> (\<exists>s. (d, s) \<in> set resto \<and> e' = (Some m, somma_pura c s) \<and>
                           minore (somma_pura c s) (snd e))" by blast
      then have "map_of t d = Some e \<and> (e' = e \<or> (\<exists>s. (d, s) \<in> set (p # resto) \<and> e' = (Some m, somma_pura c s) \<and>
                           minore (somma_pura c s) (snd e)))" by auto
      then show ?thesis by blast
    qed
  qed
  qed
qed

lemma aggiorna_tabella_voce:
  assumes "map_of (tabella_routing (snd (aggiorna_tabella n m v))) d = Some e'"
  shows "\<exists>e. map_of (tabella_routing n) d = Some e \<and>
           (e' = e \<or> (\<exists>s c. (d, s) \<in> set v \<and> map_of (vicini n) m = Some c \<and>
                             e' = (Some m, somma_pura c s) \<and> minore (somma_pura c s) (snd e)))"
proof (cases "map_of (vicini n) m")
  case None
  then show ?thesis using assms by (simp add: aggiorna_tabella_def)
next
  case (Some c)
  obtain r t' where r: "aggiorna_ciclo m c v (tabella_routing n) False = (r, t')"
    by (cases "aggiorna_ciclo m c v (tabella_routing n) False")
  then have "map_of (snd (aggiorna_ciclo m c v (tabella_routing n) False)) d = Some e'"
    using assms Some by (simp add: aggiorna_tabella_def)
  from aggiorna_ciclo_voce [OF this] show ?thesis using Some by blast
qed

lemma invia_vettore_keys: "map fst (invia_vettore n) = map fst (tabella_routing n)"
  by (simp add: invia_vettore_def case_prod_unfold comp_def)



lemma aggiorna_tabella_ok:
  assumes "map_of (vicini n) m = Some c" "distinct (map fst v)"
    "fst ` set v \<subseteq> fst ` set (tabella_routing n)" "somma_sicura c v"
  shows "\<exists>b. fst (aggiorna_tabella n m v) = Inr b"
proof -
  from aggiorna_ciclo_ok [OF assms(2,3,4), where m = m and b = False]
  obtain b t' where "aggiorna_ciclo m c v (tabella_routing n) False = (Inr b, t')" by blast
  then show ?thesis using assms(1) by (simp add: aggiorna_tabella_def)
qed

lemma ciclo_vicini_ok:
  assumes "P nodi"
    and "\<And>cur vic. P cur \<Longrightarrow> vic \<in> set vs \<Longrightarrow>
           \<exists>nd b. map_of cur vic = Some nd \<and> fst (aggiorna_tabella nd nm v) = Inr b \<and>
                  P (AList.update vic (snd (aggiorna_tabella nd nm v)) cur)"
  shows "\<exists>a'. fst (ciclo_vicini nm v vs nodi a) = Inr a' \<and> P (snd (ciclo_vicini nm v vs nodi a))"
  using assms
proof (induction vs arbitrary: nodi a)
  case Nil
  then show ?case by simp
next
  case (Cons vic vs)
  from Cons.prems(2) [OF Cons.prems(1), of vic]
  obtain nd b where nd: "map_of nodi vic = Some nd" and b: "fst (aggiorna_tabella nd nm v) = Inr b"
    and P1: "P (AList.update vic (snd (aggiorna_tabella nd nm v)) nodi)" by auto
  obtain nd' where ag: "aggiorna_tabella nd nm v = (Inr b, nd')"
    using b by (cases "aggiorna_tabella nd nm v") auto
  have "\<exists>a'. fst (ciclo_vicini nm v vs (AList.update vic nd' nodi) (if b then a + 1 else a)) = Inr a' \<and>
          P (snd (ciclo_vicini nm v vs (AList.update vic nd' nodi) (if b then a + 1 else a)))"
    using P1 ag Cons.prems(2) by (intro Cons.IH) auto
  then show ?case using nd ag by simp
qed

lemma ciclo_snapshot_ok:
  assumes "P nodi"
    and "\<And>cur nm nodo vic. P cur \<Longrightarrow> (nm, nodo) \<in> set snap \<Longrightarrow> vic \<in> fst ` set (vicini nodo) \<Longrightarrow>
           \<exists>nd b. map_of cur vic = Some nd \<and>
                  fst (aggiorna_tabella nd nm (invia_vettore nodo)) = Inr b \<and>
                  P (AList.update vic (snd (aggiorna_tabella nd nm (invia_vettore nodo))) cur)"
  shows "\<exists>a'. fst (ciclo_snapshot snap nodi a) = Inr a' \<and> P (snd (ciclo_snapshot snap nodi a))"
  using assms
proof (induction snap arbitrary: nodi a)
  case Nil
  then show ?case by simp
next
  case (Cons p snap)
  obtain nm nodo where p: "p = (nm, nodo)" by (cases p)
  let ?cv = "ciclo_vicini nm (invia_vettore nodo) (map fst (vicini nodo)) nodi a"
  have "\<exists>a'. fst ?cv = Inr a' \<and> P (snd ?cv)"
    using Cons.prems(1)
  proof (rule ciclo_vicini_ok)
    fix cur vic
    assume "P cur" "vic \<in> set (map fst (vicini nodo))"
    then show "\<exists>nd b. map_of cur vic = Some nd \<and>
                  fst (aggiorna_tabella nd nm (invia_vettore nodo)) = Inr b \<and>
                  P (AList.update vic (snd (aggiorna_tabella nd nm (invia_vettore nodo))) cur)"
      using Cons.prems(2) [of cur nm nodo vic] p by simp
  qed
  then obtain a1 n1 where cv: "?cv = (Inr a1, n1)" and P1: "P n1"
    by (cases ?cv) auto
  have "\<exists>a'. fst (ciclo_snapshot snap n1 a1) = Inr a' \<and> P (snd (ciclo_snapshot snap n1 a1))"
    using P1 Cons.prems(2) by (intro Cons.IH) auto
  then show ?case using p cv by simp
qed

lemma iterazione_ok:
  assumes sv: "stato_valido nodi" and cc: "costi_convertibili nodi"
  shows "\<exists>a. fst (iterazione nodi) = Inr a"
proof -
  have tv: "topologia_valida nodi" using sv by (rule stato_valido_topologia)
  have dk: "distinct (map fst nodi)" using tv by (rule topologia_valida_distinct)
  have "\<exists>a'. fst (ciclo_snapshot nodi nodi 0) = Inr a' \<and>
          forma (snd (ciclo_snapshot nodi nodi 0)) = forma nodi"
  proof (rule ciclo_snapshot_ok [where P = "\<lambda>cur. forma cur = forma nodi"])
    show "forma nodi = forma nodi" by simp
  next
    fix cur nm nodo vic
    assume f: "forma cur = forma nodi" and mem: "(nm, nodo) \<in> set nodi"
      and vic: "vic \<in> fst ` set (vicini nodo)"
    from topologia_valida_vicino [OF tv mem vic]
    obtain nv where nv: "map_of nodi vic = Some nv" "nm \<in> fst ` set (vicini nv)" by blast
    from forma_same_map_of [OF f [symmetric] nv(1)]
    obtain nd where nd: "map_of cur vic = Some nd" "vicini nd = vicini nv"
      "map fst (tabella_routing nd) = map fst (tabella_routing nv)" by blast
    from nv(2) nd(2) obtain c where c: "map_of (vicini nd) nm = Some c"
      by (metis domD dom_map_of_conv_image_fst)
    have kv: "map fst (tabella_routing nv) = map fst nodi"
      using stato_valido_chiavi [OF sv map_of_SomeD [OF nv(1)]] .
    have kn: "map fst (tabella_routing nodo) = map fst nodi"
      using stato_valido_chiavi [OF sv mem] .
    have d: "distinct (map fst (invia_vettore nodo))"
      using dk kn by (simp add: invia_vettore_keys)
    have s: "fst ` set (invia_vettore nodo) \<subseteq> fst ` set (tabella_routing nd)"
    proof -
      have "set (map fst (invia_vettore nodo)) = set (map fst (tabella_routing nd))"
        using kn kv nd(3) by (simp add: invia_vettore_keys)
      then show ?thesis by auto
    qed
    have "(nm, c) \<in> set (vicini nv)" using c nd(2) by (auto dest: map_of_SomeD)
    then have "convertibile c"
      using costi_convertibiliD [OF cc map_of_SomeD [OF nv(1)]] by blast
    then have ss: "somma_sicura c (invia_vettore nodo)" by (simp add: somma_sicura_def)
    from aggiorna_tabella_ok [OF c d s ss] obtain b where
      "fst (aggiorna_tabella nd nm (invia_vettore nodo)) = Inr b" by blast
    then show "\<exists>nd b. map_of cur vic = Some nd \<and>
                  fst (aggiorna_tabella nd nm (invia_vettore nodo)) = Inr b \<and>
                  forma (AList.update vic (snd (aggiorna_tabella nd nm (invia_vettore nodo))) cur) = forma nodi"
      using nd(1) f forma_update_aggiorna [OF nd(1)] by auto
  qed
  then show ?thesis by (auto simp: iterazione_def)
qed

lemma distanza_update:
  "distanza (AList.update vic nd' cur) k d =
     (if k = vic then map_option snd (map_of (tabella_routing nd') d) else distanza cur k d)"
  by (simp add: distanza_def update_conv')

lemma distanza_passo_mono:
  assumes "distanza nodi k d = Some x"
  shows "\<exists>x'. distanza (passo nodi) k d = Some x' \<and> minore_uguale x' x"
proof (rule iterazione_inv [where P = "\<lambda>cur. \<exists>x'. distanza cur k d = Some x' \<and> minore_uguale x' x"])
  show "\<exists>x'. distanza nodi k d = Some x' \<and> minore_uguale x' x"
    using assms by auto
next
  fix cur nm nodo vic nd
  assume P: "\<exists>x'. distanza cur k d = Some x' \<and> minore_uguale x' x"
    and nd: "map_of cur vic = Some nd"
  then obtain x1 where x1: "distanza cur k d = Some x1" "minore_uguale x1 x" by blast
  let ?nd' = "snd (aggiorna_tabella nd nm (invia_vettore nodo))"
  show "\<exists>x'. distanza (AList.update vic ?nd' cur) k d = Some x' \<and> minore_uguale x' x"
  proof (cases "k = vic")
    case True
    then obtain via where "map_of (tabella_routing nd) d = Some (via, x1)"
      using x1(1) nd by (auto simp: distanza_def)
    from aggiorna_tabella_mono [OF this, of nm "invia_vettore nodo"]
    obtain via' x2 where "map_of (tabella_routing ?nd') d = Some (via', x2)" "minore_uguale x2 x1"
      by blast
    then show ?thesis using True x1(2)
      by (auto simp: distanza_update intro: minore_uguale_trans)
  next
    case False
    then show ?thesis using x1 by (simp add: distanza_update)
  qed
qed

section \<open>The loop over the rounds\<close>

lemma passo_Suc: "(passo ^^ Suc j) s = (passo ^^ j) (passo s)"
  by (simp add: funpow_swap1)

lemma ciclo_iterazioni_Cons_cases:
  obtains (err) x where "fst (iterazione s) = Inl x"
      "ciclo_iterazioni (it # its) s =
         \<lparr>ritorno = Inl x, nodi_finali = passo s, stampe = [StampaIterazione (it + 1)]\<rparr>"
  | (zero) "fst (iterazione s) = Inr 0"
      "ciclo_iterazioni (it # its) s =
         \<lparr>ritorno = Inr (), nodi_finali = passo s,
          stampe = [StampaIterazione (it + 1), StampaTabelle (passo s), StampaConvergenza]\<rparr>"
  | (succ) a where "fst (iterazione s) = Inr (Suc a)"
      "ciclo_iterazioni (it # its) s =
         (ciclo_iterazioni its (passo s))
           \<lparr>stampe := StampaIterazione (it + 1) # StampaTabelle (passo s) #
                       stampe (ciclo_iterazioni its (passo s))\<rparr>"
proof -
  obtain r s' where it: "iterazione s = (r, s')" by (cases "iterazione s")
  then have ps: "passo s = s'" by (simp add: passo_def)
  show ?thesis
  proof (cases r)
    case (Inl x)
    then show ?thesis using it ps err [of x] by simp
  next
    case (Inr a)
    show ?thesis
    proof (cases a)
      case 0
      then show ?thesis using it ps Inr zero by simp
    next
      case (Suc a')
      then show ?thesis using it ps Inr succ [of a'] by (simp add: Let_def)
    qed
  qed
qed

lemma eseguite_le: "eseguite (ciclo_iterazioni its s) \<le> length its"
proof (induction its arbitrary: s)
  case Nil
  then show ?case by (simp add: eseguite_def)
next
  case (Cons it its)
  show ?case
  proof (cases rule: ciclo_iterazioni_Cons_cases [of s it its])
    case (err x)
    then show ?thesis by (simp add: eseguite_def)
  next
    case zero
    then show ?thesis by (simp add: eseguite_def)
  next
    case (succ a)
    then show ?thesis using Cons.IH [of "passo s"] by (simp add: eseguite_def)
  qed
qed

lemma nodi_finali_passo:
  "nodi_finali (ciclo_iterazioni its s) = (passo ^^ eseguite (ciclo_iterazioni its s)) s"
proof (induction its arbitrary: s)
  case Nil
  then show ?case by (simp add: eseguite_def)
next
  case (Cons it its)
  show ?case
  proof (cases rule: ciclo_iterazioni_Cons_cases [of s it its])
    case (err x)
    then show ?thesis by (simp add: eseguite_def)
  next
    case zero
    then show ?thesis by (simp add: eseguite_def)
  next
    case (succ a)
    then show ?thesis using Cons.IH [of "passo s"]
      by (simp add: eseguite_def funpow_swap1)
  qed
qed

lemma prima_dell_ultima:
  "Suc j < eseguite (ciclo_iterazioni its s) \<Longrightarrow>
   \<exists>a. fst (iterazione ((passo ^^ j) s)) = Inr (Suc a)"
proof (induction its arbitrary: s j)
  case Nil
  then show ?case by (simp add: eseguite_def)
next
  case (Cons it its)
  show ?case
  proof (cases rule: ciclo_iterazioni_Cons_cases [of s it its])
    case (err x)
    then show ?thesis using Cons.prems by (simp add: eseguite_def)
  next
    case zero
    then show ?thesis using Cons.prems by (simp add: eseguite_def)
  next
    case (succ a)
    then have e: "eseguite (ciclo_iterazioni (it # its) s) =
        Suc (eseguite (ciclo_iterazioni its (passo s)))" by (simp add: eseguite_def)
    show ?thesis
    proof (cases j)
      case 0
      then show ?thesis using succ(1) by simp
    next
      case (Suc j')
      then have "Suc j' < eseguite (ciclo_iterazioni its (passo s))"
        using Cons.prems e by simp
      from Cons.IH [OF this] show ?thesis using Suc by (simp add: funpow_swap1)
    qed
  qed
qed

lemma convergenza_stampata:
  "StampaConvergenza \<in> set (stampe (ciclo_iterazioni its s)) \<longleftrightarrow>
     0 < eseguite (ciclo_iterazioni its s) \<and>
     fst (iterazione ((passo ^^ (eseguite (ciclo_iterazioni its s) - 1)) s)) = Inr 0"
proof (induction its arbitrary: s)
  case Nil
  then show ?case by (simp add: eseguite_def)
next
  case (Cons it its)
  show ?case
  proof (cases rule: ciclo_iterazioni_Cons_cases [of s it its])
    case (err x)
    then show ?thesis by (simp add: eseguite_def)
  next
    case zero
    then show ?thesis by (simp add: eseguite_def)
  next
    case (succ a)
    let ?r' = "ciclo_iterazioni its (passo s)"
    have e: "eseguite (ciclo_iterazioni (it # its) s) = Suc (eseguite ?r')"
      using succ by (simp add: eseguite_def)
    have c: "StampaConvergenza \<in> set (stampe (ciclo_iterazioni (it # its) s)) \<longleftrightarrow>
             StampaConvergenza \<in> set (stampe ?r')" using succ by simp
    show ?thesis
    proof (cases "eseguite ?r'")
      case 0
      then show ?thesis using c e Cons.IH [of "passo s"] succ(1) by simp
    next
      case (Suc e')
      then show ?thesis using c e Cons.IH [of "passo s"] by (simp add: funpow_swap1)
    qed
  qed
qed

lemma ritorno_None:
  "ritorno (ciclo_iterazioni its s) = Inr () \<longleftrightarrow>
     eseguite (ciclo_iterazioni its s) = 0 \<or>
     (\<exists>a. fst (iterazione ((passo ^^ (eseguite (ciclo_iterazioni its s) - 1)) s)) = Inr a)"
proof (induction its arbitrary: s)
  case Nil
  then show ?case by (simp add: eseguite_def)
next
  case (Cons it its)
  show ?case
  proof (cases rule: ciclo_iterazioni_Cons_cases [of s it its])
    case (err x)
    then show ?thesis by (simp add: eseguite_def)
  next
    case zero
    then show ?thesis by (simp add: eseguite_def)
  next
    case (succ a)
    let ?r' = "ciclo_iterazioni its (passo s)"
    have e: "eseguite (ciclo_iterazioni (it # its) s) = Suc (eseguite ?r')"
      using succ by (simp add: eseguite_def)
    have c: "ritorno (ciclo_iterazioni (it # its) s) = ritorno ?r'" using succ by simp
    show ?thesis
    proof (cases "eseguite ?r'")
      case 0
      then show ?thesis using c e Cons.IH [of "passo s"] succ(1) by simp
    next
      case (Suc e')
      then show ?thesis using c e Cons.IH [of "passo s"] by (simp add: funpow_swap1)
    qed
  qed
qed

lemma fermata_anticipata:
  "eseguite (ciclo_iterazioni its s) < length its \<Longrightarrow>
     0 < eseguite (ciclo_iterazioni its s) \<and>
     (\<forall>a. fst (iterazione ((passo ^^ (eseguite (ciclo_iterazioni its s) - 1)) s)) \<noteq> Inr (Suc a))"
proof (induction its arbitrary: s)
  case Nil
  then show ?case by simp
next
  case (Cons it its)
  show ?case
  proof (cases rule: ciclo_iterazioni_Cons_cases [of s it its])
    case (err x)
    then show ?thesis by (simp add: eseguite_def)
  next
    case zero
    then show ?thesis by (simp add: eseguite_def)
  next
    case (succ a)
    let ?r' = "ciclo_iterazioni its (passo s)"
    have e: "eseguite (ciclo_iterazioni (it # its) s) = Suc (eseguite ?r')"
      using succ by (simp add: eseguite_def)
    then have "eseguite ?r' < length its" using Cons.prems by simp
    from Cons.IH [OF this] obtain e' where e': "eseguite ?r' = Suc e'"
      and n: "\<forall>a. fst (iterazione ((passo ^^ e') (passo s))) \<noteq> Inr (Suc a)"
      by (cases "eseguite ?r'") auto
    show ?thesis using e e' n by (simp add: funpow_swap1)
  qed
qed

lemma tabelle_stampate_passo:
  "t \<in> set (tabelle_stampate (stampe (ciclo_iterazioni its s))) \<Longrightarrow>
   \<exists>j. t = (passo ^^ Suc j) s"
proof (induction its arbitrary: s)
  case Nil
  then show ?case by simp
next
  case (Cons it its)
  show ?case
  proof (cases rule: ciclo_iterazioni_Cons_cases [of s it its])
    case (err x)
    then show ?thesis using Cons.prems by simp
  next
    case zero
    then show ?thesis using Cons.prems by (auto intro: exI [of _ 0])
  next
    case (succ a)
    from Cons.prems succ have "t = passo s \<or> t \<in> set (tabelle_stampate (stampe (ciclo_iterazioni its (passo s))))"
      by auto
    then show ?thesis
    proof
      assume "t = passo s"
      then show ?thesis by (auto intro: exI [of _ 0])
    next
      assume "t \<in> set (tabelle_stampate (stampe (ciclo_iterazioni its (passo s))))"
      from Cons.IH [OF this] obtain j where "t = (passo ^^ Suc j) (passo s)" by blast
      then have "t = (passo ^^ Suc (Suc j)) s" by (simp add: funpow_swap1)
      then show ?thesis by blast
    qed
  qed
qed

lemma stato_valido_dopo: "topologia_valida nodi \<Longrightarrow> stato_valido (dopo r nodi)"
  by (induction r) (simp_all add: dopo_def stato_valido_inizializza stato_valido_passo)

lemma costi_convertibili_dopo: "costi_convertibili nodi \<Longrightarrow> costi_convertibili (dopo r nodi)"
  by (induction r)
     (simp_all add: dopo_def costi_convertibili_inizializza costi_convertibili_passo)

lemma conteggio_ok:
  "topologia_valida nodi \<Longrightarrow> costi_convertibili nodi \<Longrightarrow> \<exists>a. conteggio r nodi = Inr a"
  unfolding conteggio_def
  by (rule iterazione_ok) (simp_all add: stato_valido_dopo costi_convertibili_dopo)

section \<open>The run of \<^verbatim>\<open>main\<close>\<close>

lemmas valuta = inizializza_tutti_def inizializza_tabella_def nodo_nuovo_def voce_iniziale_def
  iterazione_def invia_vettore_def aggiorna_tabella_def rete_main_def Let_def convertibile_def

lemma iterazione_main_1:
  "iterazione (inizializza_tutti rete_main) = (Inr 6, tabelle_main_1)"
  by (simp add: valuta tabelle_main_1_def tabelle_main_2_def)

lemma iterazione_main_2:
  "iterazione (tabelle_main_1) = (Inr 2, tabelle_main_2)"
  by (simp add: valuta tabelle_main_1_def tabelle_main_2_def)

lemma iterazione_main_3:
  "iterazione (tabelle_main_2) = (Inr 0, tabelle_main_2)"
  by (simp add: valuta tabelle_main_1_def tabelle_main_2_def)

lemma topologia_valida_main: "topologia_valida rete_main"
  by (simp add: topologia_valida_def rete_main_def nodo_nuovo_def)

lemma costi_non_negativi_main: "costi_non_negativi rete_main"
  by (simp add: costi_non_negativi_def rete_main_def nodo_nuovo_def)

lemma simula_main_3:
  "simula rete_main 3 =
     \<lparr>ritorno = Inr (), nodi_finali = tabelle_main_2,
      stampe = [StampaIterazione 1, StampaTabelle (tabelle_main_1),
                StampaIterazione 2, StampaTabelle (tabelle_main_2),
                StampaIterazione 3, StampaTabelle (tabelle_main_2), StampaConvergenza]\<rparr>"
  by (simp add: simula_def upt_conv_Cons iterazione_main_1 iterazione_main_2 iterazione_main_3)

lemma simula_main_2:
  "simula rete_main 2 =
     \<lparr>ritorno = Inr (), nodi_finali = tabelle_main_2,
      stampe = [StampaIterazione 1, StampaTabelle (tabelle_main_1),
                StampaIterazione 2, StampaTabelle (tabelle_main_2)]\<rparr>"
  by (simp add: simula_def upt_conv_Cons iterazione_main_1 iterazione_main_2 iterazione_main_3)

lemma simula_main_10:
  "simula rete_main 10 = simula rete_main 3"
  by (simp add: simula_def upt_conv_Cons iterazione_main_1 iterazione_main_2 iterazione_main_3)

lemma costi_convertibili_main: "costi_convertibili rete_main"
  by (simp add: costi_convertibili_def rete_main_def nodo_nuovo_def convertibile_def)

lemma topologia_valida_grande: "topologia_valida rete_grande"
  by (simp add: topologia_valida_def rete_grande_def nodo_nuovo_def)

lemma costi_non_negativi_grande: "costi_non_negativi rete_grande"
  by (simp add: costi_non_negativi_def rete_grande_def nodo_nuovo_def)

lemma iterazione_grande:
  "iterazione (inizializza_tutti rete_grande) = (Inl OverflowError, inizializza_tutti rete_grande)"
  by (simp add: inizializza_tutti_def inizializza_tabella_def nodo_nuovo_def voce_iniziale_def
        iterazione_def invia_vettore_def aggiorna_tabella_def rete_grande_def Let_def
        convertibile_def)

lemma simula_grande:
  "simula rete_grande 10 =
     \<lparr>ritorno = Inl OverflowError, nodi_finali = inizializza_tutti rete_grande,
      stampe = [StampaIterazione 1]\<rparr>"
  by (simp add: simula_def upt_conv_Cons iterazione_grande)

section \<open>Properties of a run\<close>

lemma dopo_0: "dopo 0 nodi = inizializza_tutti nodi"
  by (simp add: dopo_def)

lemma dopo_Suc: "dopo (Suc r) nodi = passo (dopo r nodi)"
  by (simp add: dopo_def)

lemma dopo_main_1: "dopo (Suc 0) rete_main = tabelle_main_1"
  by (simp add: dopo_def passo_def iterazione_main_1)

lemma dopo_main_2: "dopo (Suc (Suc 0)) rete_main = tabelle_main_2"
  using dopo_main_1 by (simp add: dopo_Suc passo_def iterazione_main_2)

lemma dopo_main_3: "dopo (Suc (Suc (Suc 0))) rete_main = tabelle_main_2"
  using dopo_main_2 by (simp add: dopo_Suc passo_def iterazione_main_3)

lemma simula_eseguite_le: "eseguite (simula nodi m) \<le> nat m"
  using eseguite_le [of "[0..<nat m]" "inizializza_tutti nodi"] by (simp add: simula_def)

lemma simula_nodi_finali: "nodi_finali (simula nodi m) = dopo (eseguite (simula nodi m)) nodi"
  by (simp add: simula_def dopo_def nodi_finali_passo)

lemma distanza_dopo_mono:
  "distanza (dopo r nodi) k d = Some x \<Longrightarrow>
   \<exists>x'. distanza (dopo (r + j) nodi) k d = Some x' \<and> minore_uguale x' x"
proof (induction j)
  case 0
  then show ?case by simp
next
  case (Suc j)
  then obtain x1 where x1: "distanza (dopo (r + j) nodi) k d = Some x1" "minore_uguale x1 x"
    by blast
  from distanza_passo_mono [OF x1(1)] obtain x2 where
    "distanza (passo (dopo (r + j) nodi)) k d = Some x2" "minore_uguale x2 x1" by blast
  then show ?case using x1(2) by (auto simp: dopo_Suc intro: minore_uguale_trans)
qed

text \<open>
  C6. For every node \<open>k\<close> and destination \<open>d\<close> the stored distance never increases:
  a round started in any state leaves a distance less than or equal to the one it found
  (also when the round raises), so along a run the distance after \<open>r + j\<close> rounds is
  less than or equal to the distance after \<open>r\<close> rounds; the state \<^verbatim>\<open>simula\<close> ends in
  is one of these states.
\<close>

theorem distanza_non_crescente:
  "(\<forall>s x. distanza s k d = Some x \<longrightarrow>
      (\<exists>x'. distanza (snd (iterazione s)) k d = Some x' \<and> minore_uguale x' x)) \<and>
   (\<forall>r j x. distanza (dopo r nodi) k d = Some x \<longrightarrow>
      (\<exists>x'. distanza (dopo (r + j) nodi) k d = Some x' \<and> minore_uguale x' x)) \<and>
   nodi_finali (simula nodi m) = dopo (eseguite (simula nodi m)) nodi"
  using distanza_passo_mono [of _ k d] distanza_dopo_mono [of _ nodi k d]
  by (simp add: simula_nodi_finali passo_def)

text \<open>In the run of \<^verbatim>\<open>main\<close> the distance from A to D is 5 after one round, 4 after two.\<close>

theorem distanza_non_crescente_witness:
  "distanza (dopo 1 rete_main) ''A'' ''D'' = Some (Fin 5) \<and>
   distanza (dopo 2 rete_main) ''A'' ''D'' = Some (Fin 4) \<and>
   minore_uguale (Fin 4) (Fin 5) \<and>
   nodi_finali (simula rete_main 10) = dopo (eseguite (simula rete_main 10)) rete_main"
  using distanza_non_crescente [of "''A''" "''D''" rete_main 10]
  by (simp add: dopo_main_1 dopo_main_2 distanza_def tabelle_main_1_def tabelle_main_2_def
        numeral_2_eq_2)

text \<open>The third round of \<^verbatim>\<open>main\<close> changes nothing, and neither would a fourth.\<close>

theorem punto_fisso_stabile_witness:
  "iterazione tabelle_main_2 = (Inr 0, tabelle_main_2) \<and>
   tabelle_main_2 = dopo 2 rete_main"
  using punto_fisso_stabile [OF iterazione_main_3]
  by (simp add: dopo_main_2 numeral_2_eq_2)

text \<open>
  C8, as the code behaves. \<^verbatim>\<open>simula\<close> is a total function: it ends after at most
  \<^verbatim>\<open>max_iter\<close> rounds, on every input. Every round before the last one executed had
  changes. If fewer than \<^verbatim>\<open>max_iter\<close> rounds were executed, the last one either had
  \<^verbatim>\<open>aggiornamenti == 0\<close> or raised an error. When the run returns, it ran fewer than
  \<^verbatim>\<open>max_iter\<close> rounds only by ending on a round with \<^verbatim>\<open>aggiornamenti == 0\<close>, and it
  left the loop through \<^verbatim>\<open>break\<close> (the convergence message is printed) exactly when
  one of the first \<^verbatim>\<open>max_iter\<close> rounds has \<^verbatim>\<open>aggiornamenti == 0\<close>. No round follows
  the first such round. On a valid network whose link costs are all below
  \<open>2^1024 - 2^970\<close> in absolute value no round raises, and the run returns.
\<close>

theorem simula_termina:
  "eseguite (simula nodi m) \<le> nat m \<and>
   (\<forall>j. Suc j < eseguite (simula nodi m) \<longrightarrow> (\<exists>a. conteggio j nodi = Inr (Suc a))) \<and>
   (eseguite (simula nodi m) < nat m \<longrightarrow>
      0 < eseguite (simula nodi m) \<and>
      (conteggio (eseguite (simula nodi m) - 1) nodi = Inr 0 \<or>
       (\<exists>err. conteggio (eseguite (simula nodi m) - 1) nodi = Inl err))) \<and>
   (ritorno (simula nodi m) = Inr () \<longrightarrow>
      (eseguite (simula nodi m) < nat m \<longrightarrow>
         conteggio (eseguite (simula nodi m) - 1) nodi = Inr 0) \<and>
      (StampaConvergenza \<in> set (stampe (simula nodi m)) \<longleftrightarrow>
         (\<exists>j < nat m. conteggio j nodi = Inr 0))) \<and>
   (\<forall>j < nat m. conteggio j nodi = Inr 0 \<longrightarrow> eseguite (simula nodi m) \<le> Suc j) \<and>
   (topologia_valida nodi \<and> costi_convertibili nodi \<longrightarrow> ritorno (simula nodi m) = Inr ())"
proof -
  let ?s = "inizializza_tutti nodi"
  let ?r = "ciclo_iterazioni [0..<nat m] ?s"
  let ?e = "eseguite (simula nodi m)"
  have r: "simula nodi m = ?r" by (simp add: simula_def)
  have c: "conteggio j nodi = fst (iterazione ((passo ^^ j) ?s))" for j
    by (simp add: conteggio_def dopo_def)
  have rn: "ritorno (simula nodi m) = Inr () \<longleftrightarrow>
              ?e = 0 \<or> (\<exists>a. conteggio (?e - 1) nodi = Inr a)"
    using ritorno_None [of "[0..<nat m]" ?s] by (simp add: r c)
  have cs: "StampaConvergenza \<in> set (stampe (simula nodi m)) \<longleftrightarrow>
              0 < ?e \<and> conteggio (?e - 1) nodi = Inr 0"
    using convergenza_stampata [of "[0..<nat m]" ?s] by (simp add: r c)
  have 1: "?e \<le> nat m" by (rule simula_eseguite_le)
  have 2: "\<exists>a. conteggio j nodi = Inr (Suc a)" if "Suc j < ?e" for j
    using prima_dell_ultima [of j "[0..<nat m]" ?s] that by (simp add: r c)
  have fa: "0 < ?e \<and> (\<forall>a. conteggio (?e - 1) nodi \<noteq> Inr (Suc a))" if "?e < nat m"
    using fermata_anticipata [of "[0..<nat m]" ?s] that by (simp add: r c)
  have 3: "0 < ?e \<and> (conteggio (?e - 1) nodi = Inr 0 \<or> (\<exists>err. conteggio (?e - 1) nodi = Inl err))"
    if "?e < nat m"
  proof -
    from fa [OF that] have p: "0 < ?e" and n: "\<forall>a. conteggio (?e - 1) nodi \<noteq> Inr (Suc a)"
      by simp_all
    show ?thesis
    proof (cases "conteggio (?e - 1) nodi")
      case (Inl err)
      then show ?thesis using p by simp
    next
      case (Inr a)
      with n have "a = 0" by (cases a) auto
      with p Inr show ?thesis by simp
    qed
  qed
  have 5: "?e \<le> Suc j" if "conteggio j nodi = Inr 0" for j
  proof (rule ccontr)
    assume "\<not> ?e \<le> Suc j"
    then have "Suc j < ?e" by simp
    from 2 [OF this] that show False by simp
  qed
  have qa: "conteggio (?e - 1) nodi = Inr 0"
    if rit: "ritorno (simula nodi m) = Inr ()" and lt: "?e < nat m"
  proof -
    from 3 [OF lt] have p: "0 < ?e"
      and alt: "conteggio (?e - 1) nodi = Inr 0 \<or> (\<exists>err. conteggio (?e - 1) nodi = Inl err)"
      by simp_all
    from rit rn p obtain a where "conteggio (?e - 1) nodi = Inr a" by auto
    with alt show ?thesis by auto
  qed
  have qb: "StampaConvergenza \<in> set (stampe (simula nodi m)) \<longleftrightarrow>
            (\<exists>j < nat m. conteggio j nodi = Inr 0)"
    if rit: "ritorno (simula nodi m) = Inr ()"
  proof
    assume "StampaConvergenza \<in> set (stampe (simula nodi m))"
    then have "0 < ?e" "conteggio (?e - 1) nodi = Inr 0" using cs by simp_all
    moreover have "?e - 1 < nat m" using 1 \<open>0 < ?e\<close> by simp
    ultimately show "\<exists>j < nat m. conteggio j nodi = Inr 0" by blast
  next
    assume "\<exists>j < nat m. conteggio j nodi = Inr 0"
    then obtain j where j: "j < nat m" "conteggio j nodi = Inr 0" by blast
    have le: "?e \<le> Suc j" using 5 [OF j(2)] .
    have "0 < ?e \<and> conteggio (?e - 1) nodi = Inr 0"
    proof (cases "?e < nat m")
      case True
      then show ?thesis using 3 [OF True] qa [OF rit True] by simp
    next
      case False
      then have "?e = Suc j" using 1 le j(1) by simp
      then show ?thesis using j(2) by simp
    qed
    then show "StampaConvergenza \<in> set (stampe (simula nodi m))" using cs by simp
  qed
  have 6: "ritorno (simula nodi m) = Inr ()" if "topologia_valida nodi \<and> costi_convertibili nodi"
  proof -
    from that conteggio_ok [of nodi "?e - 1"] obtain a where "conteggio (?e - 1) nodi = Inr a"
      by blast
    then show ?thesis using rn by blast
  qed
  show ?thesis using 1 2 3 qa qb 5 6 by blast
qed

text \<open>\<^verbatim>\<open>main\<close>: 6 and 2 updates in the first two rounds, none in the third, which is the last.\<close>

theorem simula_termina_witness:
  "eseguite (simula rete_main 10) = 3 \<and> ritorno (simula rete_main 10) = Inr () \<and>
   topologia_valida rete_main \<and> costi_convertibili rete_main \<and>
   conteggio 0 rete_main = Inr 6 \<and> conteggio 1 rete_main = Inr 2 \<and>
   conteggio 2 rete_main = Inr 0 \<and>
   StampaConvergenza \<in> set (stampe (simula rete_main 10))"
  using simula_termina [of rete_main 10]
  by (simp add: topologia_valida_main costi_convertibili_main simula_main_10 simula_main_3
        eseguite_def conteggio_def
        dopo_0 dopo_main_1 dopo_main_2 iterazione_main_1 iterazione_main_2 iterazione_main_3
        numeral_2_eq_2)

text \<open>
  C8 as worded says that the run stops before the cap exactly when a round has
  changed-count 0. On the valid network A-B of cost \<open>2^1024\<close>, B-C of cost 1, with
  \<^verbatim>\<open>max_iter = 10\<close>, the run stops in the first round: the sum of the cost \<open>2^1024\<close>
  and the infinite distance from A to C raises \<^verbatim>\<open>OverflowError\<close>, no round has a
  changed-count at all, and no convergence message is printed.
\<close>

theorem simula_termina_controesempio:
  "topologia_valida rete_grande \<and> costi_non_negativi rete_grande \<and>
   eseguite (simula rete_grande 10) = 1 \<and>
   conteggio 0 rete_grande = Inl OverflowError \<and>
   ritorno (simula rete_grande 10) = Inl OverflowError \<and>
   StampaConvergenza \<notin> set (stampe (simula rete_grande 10))"
  by (simp add: topologia_valida_grande costi_non_negativi_grande simula_grande eseguite_def
        conteggio_def dopo_0 iterazione_grande)

text \<open>
  C2, as the code behaves. \<^verbatim>\<open>simula\<close> reports no status: it returns \<^verbatim>\<open>None\<close> exactly
  when the last round executed (if any) raised nothing, whether the run stops on a round
  without changes or because \<^verbatim>\<open>max_iter\<close> rounds are done, and on a valid network whose
  link costs are all below \<open>2^1024 - 2^970\<close> in absolute value it always does; the state
  it leaves in \<^verbatim>\<open>nodi\<close> is the state after the rounds executed; the only trace of
  the outcome is the convergence message, printed exactly when the last round executed
  has \<^verbatim>\<open>aggiornamenti == 0\<close>.
\<close>

theorem simula_ritorna_None:
  "(ritorno (simula nodi m) = Inr () \<longleftrightarrow>
      eseguite (simula nodi m) = 0 \<or>
      (\<exists>a. conteggio (eseguite (simula nodi m) - 1) nodi = Inr a)) \<and>
   (topologia_valida nodi \<and> costi_convertibili nodi \<longrightarrow> ritorno (simula nodi m) = Inr ()) \<and>
   nodi_finali (simula nodi m) = dopo (eseguite (simula nodi m)) nodi \<and>
   (StampaConvergenza \<in> set (stampe (simula nodi m)) \<longleftrightarrow>
      0 < eseguite (simula nodi m) \<and>
      conteggio (eseguite (simula nodi m) - 1) nodi = Inr 0)"
proof -
  let ?s = "inizializza_tutti nodi"
  let ?e = "eseguite (simula nodi m)"
  have r: "simula nodi m = ciclo_iterazioni [0..<nat m] ?s" by (simp add: simula_def)
  have c: "conteggio j nodi = fst (iterazione ((passo ^^ j) ?s))" for j
    by (simp add: conteggio_def dopo_def)
  have rn: "ritorno (simula nodi m) = Inr () \<longleftrightarrow>
              ?e = 0 \<or> (\<exists>a. conteggio (?e - 1) nodi = Inr a)"
    using ritorno_None [of "[0..<nat m]" ?s] by (simp add: r c)
  have "ritorno (simula nodi m) = Inr ()" if "topologia_valida nodi \<and> costi_convertibili nodi"
  proof -
    from that conteggio_ok [of nodi "?e - 1"] obtain a where "conteggio (?e - 1) nodi = Inr a"
      by blast
    then show ?thesis using rn by blast
  qed
  moreover have "StampaConvergenza \<in> set (stampe (simula nodi m)) \<longleftrightarrow>
            0 < ?e \<and> conteggio (?e - 1) nodi = Inr 0"
    using convergenza_stampata [of "[0..<nat m]" ?s] by (simp add: r c)
  ultimately show ?thesis using rn simula_nodi_finali by blast
qed

text \<open>\<^verbatim>\<open>main\<close>'s network with \<^verbatim>\<open>max_iter\<close> 3 and 2.\<close>

theorem simula_ritorna_None_witness:
  "topologia_valida rete_main \<and> costi_convertibili rete_main \<and>
   ritorno (simula rete_main 3) = Inr () \<and> ritorno (simula rete_main 2) = Inr ()"
  using simula_ritorna_None [of rete_main 3] simula_ritorna_None [of rete_main 2]
  by (simp add: topologia_valida_main costi_convertibili_main)

text \<open>
  C2 as worded says that the caller receives a status that tells convergence from the
  iteration limit. On the network of \<^verbatim>\<open>main\<close>, \<^verbatim>\<open>max_iter = 3\<close> ends on a round
  without changes and \<^verbatim>\<open>max_iter = 2\<close> ends at the limit after a round with 2 changes;
  the value returned and the tables left in \<^verbatim>\<open>nodi\<close> are the same in both runs.
\<close>

theorem esito_indistinguibile_controesempio:
  "StampaConvergenza \<in> set (stampe (simula rete_main 3)) \<and>
   StampaConvergenza \<notin> set (stampe (simula rete_main 2)) \<and>
   eseguite (simula rete_main 2) = 2 \<and> conteggio 1 rete_main = Inr 2 \<and>
   ritorno (simula rete_main 3) = ritorno (simula rete_main 2) \<and>
   nodi_finali (simula rete_main 3) = nodi_finali (simula rete_main 2)"
  by (simp add: simula_main_3 simula_main_2 eseguite_def conteggio_def dopo_main_1
        iterazione_main_2)

section \<open>The entry of a node for itself\<close>

lemma nodo_sano_distinct: "nodo_sano K n \<Longrightarrow> distinct (map fst (tabella_routing n))"
  by (simp add: nodo_sano_def)

lemma nodo_sano_costo: "nodo_sano K n \<Longrightarrow> (v, c) \<in> set (vicini n) \<Longrightarrow> 0 \<le> c"
  unfolding nodo_sano_def by (elim conjE) (drule (1) bspec, simp)

lemma nodo_sano_distanza:
  "nodo_sano K n \<Longrightarrow> (d, via, x) \<in> set (tabella_routing n) \<Longrightarrow> minore_uguale (Fin 0) x"
  unfolding nodo_sano_def by (elim conjE) (drule (1) bspec [where x = "(d, via, x)"], simp)

lemma nodo_sano_propria:
  "nodo_sano K n \<Longrightarrow> nome n \<in> K \<Longrightarrow>
   map_of (tabella_routing n) (nome n) = Some (Some (nome n), Fin 0)"
  by (simp add: nodo_sano_def)

lemma nodo_sanoI:
  assumes "distinct (map fst (tabella_routing n))"
    and "\<And>v c. (v, c) \<in> set (vicini n) \<Longrightarrow> 0 \<le> c"
    and "\<And>d via x. (d, via, x) \<in> set (tabella_routing n) \<Longrightarrow> minore_uguale (Fin 0) x"
    and "nome n \<in> K \<Longrightarrow> map_of (tabella_routing n) (nome n) = Some (Some (nome n), Fin 0)"
  shows "nodo_sano K n"
  unfolding nodo_sano_def
proof (intro conjI ballI impI)
  show "distinct (map fst (tabella_routing n))" by fact
next
  fix p assume "p \<in> set (vicini n)"
  then show "case p of (v, c) \<Rightarrow> 0 \<le> c" using assms(2) [of "fst p" "snd p"] by (simp add: case_prod_unfold)
next
  fix p assume "p \<in> set (tabella_routing n)"
  then show "case p of (d, via, x) \<Rightarrow> minore_uguale (Fin 0) x"
    using assms(3) [of "fst p" "fst (snd p)" "snd (snd p)"] by (simp add: case_prod_unfold)
next
  assume "nome n \<in> K"
  then show "map_of (tabella_routing n) (nome n) = Some (Some (nome n), Fin 0)" by (rule assms(4))
qed

lemma ballD_coppia: "\<forall>(k, n) \<in> S. P k n \<Longrightarrow> (k, n) \<in> S \<Longrightarrow> P k n"
  by blast

lemma set_update_cases:
  "p \<in> set (AList.update k v xs) \<Longrightarrow> p = (k, v) \<or> p \<in> set xs"
  by (induction xs) (auto split: if_splits)

lemma somma_non_negativa:
  "0 \<le> c \<Longrightarrow> minore_uguale (Fin 0) s \<Longrightarrow> minore_uguale (Fin 0) (somma_pura c s)"
  by (cases s) auto

lemma non_minore_di_zero: "minore_uguale (Fin 0) x \<Longrightarrow> \<not> minore x (Fin 0)"
  by (cases x) auto

lemma invia_vettore_set:
  "(d, s) \<in> set (invia_vettore n) \<Longrightarrow> \<exists>via. (d, via, s) \<in> set (tabella_routing n)"
  by (auto simp: invia_vettore_def)

lemma sano_inizializza:
  assumes "\<forall>(v, c) \<in> set (vicini n). 0 \<le> c"
  shows "nodo_sano (set tutti) (inizializza_tabella n tutti)"
proof -
  let ?t = "inizializza_ciclo n tutti []"
  have d: "distinct (map fst ?t)" by (simp add: inizializza_ciclo_distinct)
  have nn: "minore_uguale (Fin 0) x" if "(dd, via, x) \<in> set ?t" for dd via x
  proof -
    have "map_of ?t dd = Some (via, x)" using that d by simp
    then have v: "dd \<in> set tutti" "voce_iniziale n dd = (via, x)"
      by (auto simp: inizializza_ciclo_map_of split: if_splits)
    show ?thesis
    proof (cases "dd = nome n")
      case True
      then show ?thesis using v(2) by (auto simp: voce_iniziale_def)
    next
      case False
      show ?thesis
      proof (cases "map_of (vicini n) dd")
        case None
        then show ?thesis using v(2) False by (auto simp: voce_iniziale_def)
      next
        case (Some c)
        then have "(dd, c) \<in> set (vicini n)" by (rule map_of_SomeD)
        with assms have "0 \<le> c" by (rule ballD_coppia)
        then show ?thesis using v(2) False Some by (auto simp: voce_iniziale_def)
      qed
    qed
  qed
  have self: "map_of ?t (nome n) = Some (Some (nome n), Fin 0)" if "nome n \<in> set tutti"
    using that by (simp add: inizializza_ciclo_map_of voce_iniziale_def)
  show ?thesis
  proof (rule nodo_sanoI)
    show "distinct (map fst (tabella_routing (inizializza_tabella n tutti)))"
      using d by (simp add: inizializza_tabella_def)
  next
    fix v c assume "(v, c) \<in> set (vicini (inizializza_tabella n tutti))"
    then have "(v, c) \<in> set (vicini n)" by (simp add: inizializza_tabella_def)
    with assms show "0 \<le> c" by (rule ballD_coppia)
  next
    fix dd via x assume "(dd, via, x) \<in> set (tabella_routing (inizializza_tabella n tutti))"
    then have "(dd, via, x) \<in> set ?t" by (simp add: inizializza_tabella_def)
    then show "minore_uguale (Fin 0) x" by (rule nn)
  next
    assume "nome (inizializza_tabella n tutti) \<in> set tutti"
    then have "nome n \<in> set tutti" by (simp add: inizializza_tabella_def)
    from self [OF this]
    show "map_of (tabella_routing (inizializza_tabella n tutti)) (nome (inizializza_tabella n tutti)) =
          Some (Some (nome (inizializza_tabella n tutti)), Fin 0)"
      by (simp add: inizializza_tabella_def)
  qed
qed

lemma sano_aggiorna:
  assumes nd: "nodo_sano K nd" and sn: "nodo_sano K' nodo"
  shows "nodo_sano K (snd (aggiorna_tabella nd nm (invia_vettore nodo)))"
proof -
  let ?v = "invia_vettore nodo"
  let ?n' = "snd (aggiorna_tabella nd nm ?v)"
  have campi: "nome ?n' = nome nd" "vicini ?n' = vicini nd"
    "map fst (tabella_routing ?n') = map fst (tabella_routing nd)"
    using aggiorna_tabella_campi [of nd nm ?v] by simp_all
  note d0 = nodo_sano_distinct [OF nd] and c0 = nodo_sano_costo [OF nd]
    and n0 = nodo_sano_distanza [OF nd] and s0 = nodo_sano_propria [OF nd]
  have vs: "minore_uguale (Fin 0) s" if "(dd, s) \<in> set ?v" for dd s
  proof -
    from invia_vettore_set [OF that] obtain via where "(dd, via, s) \<in> set (tabella_routing nodo)"
      by blast
    with sn show ?thesis by (rule nodo_sano_distanza)
  qed
  have d1: "distinct (map fst (tabella_routing ?n'))" using d0 campi(3) by simp
  have nuova: "minore_uguale (Fin 0) (somma_pura c s)"
    if "(dd, s) \<in> set ?v" "map_of (vicini nd) nm = Some c" for dd s c
    using somma_non_negativa [OF c0 [OF map_of_SomeD [OF that(2)]] vs [OF that(1)]] .
  have n1: "minore_uguale (Fin 0) x" if "(dd, via, x) \<in> set (tabella_routing ?n')" for dd via x
  proof -
    have "map_of (tabella_routing ?n') dd = Some (via, x)"
      using that d1 by simp
    from aggiorna_tabella_voce [OF this] obtain e where e: "map_of (tabella_routing nd) dd = Some e"
      and alt: "(via, x) = e \<or> (\<exists>s c. (dd, s) \<in> set ?v \<and> map_of (vicini nd) nm = Some c \<and>
                             (via, x) = (Some nm, somma_pura c s) \<and> minore (somma_pura c s) (snd e))"
      by blast
    from alt show ?thesis
    proof
      assume "(via, x) = e"
      then have "(dd, via, x) \<in> set (tabella_routing nd)" using e by (auto dest: map_of_SomeD)
      then show ?thesis by (rule n0)
    next
      assume "\<exists>s c. (dd, s) \<in> set ?v \<and> map_of (vicini nd) nm = Some c \<and>
                             (via, x) = (Some nm, somma_pura c s) \<and> minore (somma_pura c s) (snd e)"
      then obtain s c where "(dd, s) \<in> set ?v" "map_of (vicini nd) nm = Some c" "x = somma_pura c s"
        by auto
      then show ?thesis using nuova by simp
    qed
  qed
  have s1: "map_of (tabella_routing ?n') (nome nd) = Some (Some (nome nd), Fin 0)" if "nome nd \<in> K"
  proof -
    from aggiorna_tabella_mono [OF s0 [OF that], of nm ?v]
    obtain via' x' where m: "map_of (tabella_routing ?n') (nome nd) = Some (via', x')" by blast
    from aggiorna_tabella_voce [OF this] s0 [OF that]
    have "(via', x') = (Some (nome nd), Fin 0) \<or>
          (\<exists>s c. (nome nd, s) \<in> set ?v \<and> map_of (vicini nd) nm = Some c \<and>
                  (via', x') = (Some nm, somma_pura c s) \<and> minore (somma_pura c s) (Fin 0))"
      by auto
    then show ?thesis
    proof
      assume "(via', x') = (Some (nome nd), Fin 0)"
      then show ?thesis using m by simp
    next
      assume "\<exists>s c. (nome nd, s) \<in> set ?v \<and> map_of (vicini nd) nm = Some c \<and>
                  (via', x') = (Some nm, somma_pura c s) \<and> minore (somma_pura c s) (Fin 0)"
      then obtain s c where sc: "(nome nd, s) \<in> set ?v" "map_of (vicini nd) nm = Some c"
        "minore (somma_pura c s) (Fin 0)" by blast
      from non_minore_di_zero [OF nuova [OF sc(1,2)]] sc(3) show ?thesis by simp
    qed
  qed
  show ?thesis
  proof (rule nodo_sanoI)
    show "distinct (map fst (tabella_routing ?n'))" by (rule d1)
  next
    fix v c assume "(v, c) \<in> set (vicini ?n')"
    then show "0 \<le> c" using c0 [of v c] campi(2) by simp
  next
    fix dd via x assume "(dd, via, x) \<in> set (tabella_routing ?n')"
    then show "minore_uguale (Fin 0) x" by (rule n1)
  next
    assume "nome ?n' \<in> K"
    then show "map_of (tabella_routing ?n') (nome ?n') = Some (Some (nome ?n'), Fin 0)"
      using s1 campi(1) by simp
  qed
qed

lemma sani_passo:
  assumes "\<forall>(k, n) \<in> set nodi. nodo_sano K n"
  shows "\<forall>(k, n) \<in> set (passo nodi). nodo_sano K n"
proof (rule iterazione_inv [where P = "\<lambda>cur. \<forall>(k, n) \<in> set cur. nodo_sano K n"])
  show "\<forall>(k, n) \<in> set nodi. nodo_sano K n" by fact
next
  fix cur nm nodo vic nd
  assume P: "\<forall>(k, n) \<in> set cur. nodo_sano K n" and mem: "(nm, nodo) \<in> set nodi"
    and nd: "map_of cur vic = Some nd"
  have "nodo_sano K nd" using P map_of_SomeD [OF nd] by (rule ballD_coppia)
  moreover have "nodo_sano K nodo" using assms mem by (rule ballD_coppia)
  ultimately have "nodo_sano K (snd (aggiorna_tabella nd nm (invia_vettore nodo)))"
    by (rule sano_aggiorna)
  then show "\<forall>(k, n) \<in> set (AList.update vic (snd (aggiorna_tabella nd nm (invia_vettore nodo))) cur).
               nodo_sano K n"
  proof (intro ballI)
    fix p assume "p \<in> set (AList.update vic (snd (aggiorna_tabella nd nm (invia_vettore nodo))) cur)"
    from set_update_cases [OF this]
    show "case p of (k, n) \<Rightarrow> nodo_sano K n"
    proof
      assume "p = (vic, snd (aggiorna_tabella nd nm (invia_vettore nodo)))"
      then show ?thesis
        using \<open>nodo_sano K (snd (aggiorna_tabella nd nm (invia_vettore nodo)))\<close> by simp
    next
      assume "p \<in> set cur"
      with P show ?thesis by (rule bspec)
    qed
  qed
qed

lemma sani_dopo:
  assumes "costi_non_negativi nodi"
  shows "\<forall>(k, n) \<in> set (dopo r nodi). nodo_sano (fst ` set nodi) n"
proof (induction r)
  case 0
  have "nodo_sano (fst ` set nodi) (inizializza_tabella n (map fst nodi))" if "(k, n) \<in> set nodi" for k n
  proof -
    have "\<forall>(v, c) \<in> set (vicini n). 0 \<le> c"
      using assms that unfolding costi_non_negativi_def
      by (rule ballD_coppia)
    from sano_inizializza [OF this, of "map fst nodi"] show ?thesis by simp
  qed
  then show ?case by (auto simp: dopo_0 inizializza_tutti_def Let_def)
next
  case (Suc r)
  then show ?case unfolding dopo_Suc by (rule sani_passo)
qed

lemma nome_dopo:
  "(k, n) \<in> set (dopo r nodi) \<Longrightarrow> \<exists>n0. (k, n0) \<in> set nodi \<and> nome n = nome n0 \<and> vicini n = vicini n0"
proof (induction r arbitrary: n)
  case 0
  then show ?case by (auto simp: dopo_0 inizializza_tutti_def Let_def inizializza_tabella_def)
next
  case (Suc r)
  from forma_same_set [OF forma_passo Suc.prems [unfolded dopo_Suc]]
  obtain n1 where "(k, n1) \<in> set (dopo r nodi)" "nome n1 = nome n" "vicini n1 = vicini n"
    by blast
  with Suc.IH [of n1] show ?case by auto
qed

text \<open>
  C7. When no link cost is negative, every node whose name is one of the node names has
  the entry \<open>(nome, 0)\<close> for its own name after initialisation and after every round
  (\<open>dopo r nodi\<close> for every \<open>r\<close>), hence also in the state \<^verbatim>\<open>simula\<close> ends in:
  a candidate \<open>c + s\<close> with \<open>c\<close> and \<open>s\<close> not negative is never strictly less than 0.
\<close>

theorem voce_propria_invariante:
  assumes "costi_non_negativi nodi"
  shows "(\<forall>r. \<forall>(k, n) \<in> set (dopo r nodi).
            nome n \<in> fst ` set nodi \<longrightarrow>
            map_of (tabella_routing n) (nome n) = Some (Some (nome n), Fin 0)) \<and>
         (\<forall>(k, n) \<in> set (nodi_finali (simula nodi m)).
            nome n \<in> fst ` set nodi \<longrightarrow>
            map_of (tabella_routing n) (nome n) = Some (Some (nome n), Fin 0))"
proof -
  have "\<forall>(k, n) \<in> set (dopo r nodi).
            nome n \<in> fst ` set nodi \<longrightarrow>
            map_of (tabella_routing n) (nome n) = Some (Some (nome n), Fin 0)" for r
  proof (intro ballI)
    fix p assume p: "p \<in> set (dopo r nodi)"
    obtain k n where kn: "p = (k, n)" by (cases p)
    have "nodo_sano (fst ` set nodi) n"
      using sani_dopo [OF assms, of r] p unfolding kn by (rule ballD_coppia)
    then show "case p of (k, n) \<Rightarrow> nome n \<in> fst ` set nodi \<longrightarrow>
            map_of (tabella_routing n) (nome n) = Some (Some (nome n), Fin 0)"
      unfolding kn using nodo_sano_propria by simp
  qed
  then show ?thesis unfolding simula_nodi_finali by blast
qed

text \<open>Own entries in the run of \<^verbatim>\<open>main\<close>: initially, after two rounds, at the end.\<close>

theorem voce_propria_invariante_witness:
  "costi_non_negativi rete_main \<and>
   voce_di (dopo 0 rete_main) ''A'' ''A'' = Some (Some ''A'', Fin 0) \<and>
   voce_di (dopo 2 rete_main) ''D'' ''D'' = Some (Some ''D'', Fin 0) \<and>
   voce_di (nodi_finali (simula rete_main 10)) ''C'' ''C'' = Some (Some ''C'', Fin 0)"
proof -
  have 1: "voce_di (dopo 0 rete_main) ''A'' ''A'' = Some (Some ''A'', Fin 0)"
    by (simp add: voce_di_def dopo_0 valuta)
  have 2: "voce_di (dopo 2 rete_main) ''D'' ''D'' = Some (Some ''D'', Fin 0)"
    by (simp add: voce_di_def dopo_main_2 numeral_2_eq_2 tabelle_main_2_def)
  have 3: "voce_di (nodi_finali (simula rete_main 10)) ''C'' ''C'' = Some (Some ''C'', Fin 0)"
    by (simp add: voce_di_def simula_main_10 simula_main_3 tabelle_main_2_def)
  show ?thesis
    using voce_propria_invariante [OF costi_non_negativi_main, of 10] costi_non_negativi_main 1 2 3
    by simp
qed

section \<open>A round is a synchronous step\<close>

lemma ricevi_Nil [simp]: "ricevi n [] = n"
  by (simp add: ricevi_def)

lemma ricevi_Cons [simp]:
  "ricevi n ((dst, m, v) # ds) = ricevi (snd (aggiorna_tabella n m v)) ds"
  by (simp add: ricevi_def)

lemma ricevi_append: "ricevi n (xs @ ys) = ricevi (ricevi n xs) ys"
  by (simp add: ricevi_def)

lemma consegne_Cons:
  "consegne ((nm, nodo) # resto) =
     map (\<lambda>vicino. (vicino, nm, invia_vettore nodo)) (map fst (vicini nodo)) @ consegne resto"
  by (simp add: consegne_def)

lemma ciclo_vicini_ricevi:
  assumes "ciclo_vicini nm v vs nodi a = (Inr a', nodi')"
  shows "map fst nodi' = map fst nodi \<and>
         (\<forall>k n. map_of nodi k = Some n \<longrightarrow>
            map_of nodi' k =
              Some (ricevi n (filter (\<lambda>(dst, m, w). dst = k) (map (\<lambda>vic. (vic, nm, v)) vs))))"
  using assms
proof (induction vs arbitrary: nodi a)
  case Nil
  then show ?case by simp
next
  case (Cons vic vs)
  from Cons.prems obtain nd where nd: "map_of nodi vic = Some nd"
    by (cases "map_of nodi vic") auto
  obtain r nd' where ag: "aggiorna_tabella nd nm v = (r, nd')"
    by (cases "aggiorna_tabella nd nm v")
  from Cons.prems nd ag obtain b where b: "r = Inr b" by (cases r) auto
  let ?n1 = "AList.update vic nd' nodi"
  have rec: "ciclo_vicini nm v vs ?n1 (if b then a + 1 else a) = (Inr a', nodi')"
    using Cons.prems nd ag b by simp
  from Cons.IH [OF rec] have k1: "map fst nodi' = map fst ?n1"
    and m1: "\<And>k n. map_of ?n1 k = Some n \<Longrightarrow>
            map_of nodi' k =
              Some (ricevi n (filter (\<lambda>(dst, m, w). dst = k) (map (\<lambda>vic. (vic, nm, v)) vs)))"
    by blast+
  have "map fst nodi' = map fst nodi"
    using k1 update_keys_presente [OF nd] by simp
  moreover have "map_of nodi' k =
              Some (ricevi n (filter (\<lambda>(dst, m, w). dst = k) (map (\<lambda>vic. (vic, nm, v)) (vic # vs))))"
    if "map_of nodi k = Some n" for k n
  proof (cases "k = vic")
    case True
    then have "map_of ?n1 k = Some nd'" by (simp add: update_conv')
    from m1 [OF this] show ?thesis using True that nd ag by simp
  next
    case False
    then have "map_of ?n1 k = Some n" using that by (simp add: update_conv')
    from m1 [OF this] show ?thesis using False by simp
  qed
  ultimately show ?case by blast
qed

lemma ciclo_snapshot_ricevi:
  assumes "ciclo_snapshot snap nodi a = (Inr a', nodi')"
  shows "map fst nodi' = map fst nodi \<and>
         (\<forall>k n. map_of nodi k = Some n \<longrightarrow>
            map_of nodi' k = Some (ricevi n (filter (\<lambda>(dst, m, w). dst = k) (consegne snap))))"
  using assms
proof (induction snap arbitrary: nodi a)
  case Nil
  then show ?case by (simp add: consegne_def)
next
  case (Cons p snap)
  obtain nm nodo where p: "p = (nm, nodo)" by (cases p)
  let ?ds = "map (\<lambda>vic. (vic, nm, invia_vettore nodo)) (map fst (vicini nodo))"
  obtain r n1 where cv: "ciclo_vicini nm (invia_vettore nodo) (map fst (vicini nodo)) nodi a = (r, n1)"
    by (cases "ciclo_vicini nm (invia_vettore nodo) (map fst (vicini nodo)) nodi a")
  from Cons.prems p cv obtain a1 where a1: "r = Inr a1" by (cases r) auto
  have rec: "ciclo_snapshot snap n1 a1 = (Inr a', nodi')"
    using Cons.prems p cv a1 by simp
  from ciclo_vicini_ricevi [OF cv [unfolded a1]]
  have k1: "map fst n1 = map fst nodi"
    and m1: "\<And>k n. map_of nodi k = Some n \<Longrightarrow>
               map_of n1 k = Some (ricevi n (filter (\<lambda>(dst, m, w). dst = k) ?ds))"
    by blast+
  from Cons.IH [OF rec]
  have k2: "map fst nodi' = map fst n1"
    and m2: "\<And>k n. map_of n1 k = Some n \<Longrightarrow>
               map_of nodi' k = Some (ricevi n (filter (\<lambda>(dst, m, w). dst = k) (consegne snap)))"
    by blast+
  have tutti: "map_of nodi' k = Some (ricevi n (filter (\<lambda>(dst, m, w). dst = k) (consegne (p # snap))))"
    if "map_of nodi k = Some n" for k n
    using m2 [OF m1 [OF that]] by (simp add: p consegne_Cons ricevi_append)
  have chiavi: "map fst nodi' = map fst nodi" using k1 k2 by simp
  show ?case using chiavi tutti by blast
qed

lemma map_of_map_chiave:
  "map_of (map (\<lambda>(k, n). (k, f k n)) xs) k = map_option (f k) (map_of xs k)"
  by (induction xs) auto

lemma alist_uguali:
  assumes "map fst xs = map fst ys" "distinct (map fst xs)"
    and "\<And>k. k \<in> set (map fst xs) \<Longrightarrow> map_of xs k = map_of ys k"
  shows "xs = ys"
  using assms
proof (induction xs arbitrary: ys)
  case Nil
  then show ?case by simp
next
  case (Cons x xs)
  from Cons.prems(1) obtain y ys' where ys: "ys = y # ys'" "fst x = fst y" "map fst xs = map fst ys'"
    by (cases ys) auto
  have "map_of (x # xs) (fst x) = map_of ys (fst x)" using Cons.prems(3) [of "fst x"] by simp
  then have xy: "x = y" using ys by (cases x; cases y) auto
  have "map_of xs k = map_of ys' k" if "k \<in> set (map fst xs)" for k
  proof -
    have "fst x \<notin> set (map fst xs)" using Cons.prems(2) by simp
    then have "k \<noteq> fst x" using that by blast
    then show ?thesis using Cons.prems(3) [of k] that ys xy by (cases x) (auto split: if_splits)
  qed
  then have "xs = ys'" using Cons.IH [OF ys(3)] Cons.prems(2) by simp
  then show ?case using xy ys by simp
qed

lemma iterazione_sincrona:
  assumes "distinct (map fst nodi)" "iterazione nodi = (Inr a, nodi')"
  shows "nodi' = passo_sincrono nodi"
proof (rule alist_uguali)
  from ciclo_snapshot_ricevi [OF assms(2) [unfolded iterazione_def]]
  have k: "map fst nodi' = map fst nodi"
    and m: "\<And>k n. map_of nodi k = Some n \<Longrightarrow>
               map_of nodi' k = Some (ricevi n (filter (\<lambda>(dst, m, w). dst = k) (consegne nodi)))"
    by blast+
  have ks: "map fst (passo_sincrono nodi) = map fst nodi"
    by (simp add: passo_sincrono_def case_prod_unfold comp_def)
  show "map fst nodi' = map fst (passo_sincrono nodi)" using k ks by simp
  show "distinct (map fst nodi')" using k assms(1) by simp
  fix kk assume "kk \<in> set (map fst nodi')"
  then have "kk \<in> fst ` set nodi" using k by (metis list.set_map)
  then obtain n where n: "map_of nodi kk = Some n"
    by (metis domD dom_map_of_conv_image_fst)
  show "map_of nodi' kk = map_of (passo_sincrono nodi) kk"
    using m [OF n] n unfolding passo_sincrono_def map_of_map_chiave by simp
qed

text \<open>
  C5. Every round that completes leaves the tables of the double-buffered synchronous
  step: every vector delivered is the export of the sender's table as it was when the
  round started, and the in-place updates of the loop give each node the table computed
  from the tables of the previous round alone (the keys of \<^verbatim>\<open>nodi\<close> are distinct, as
  in a dictionary). On a valid state whose link costs are all below \<open>2^1024 - 2^970\<close> in
  absolute value every round completes.
\<close>

theorem iterazione_doppio_buffer:
  "(distinct (map fst nodi) \<longrightarrow>
      (\<forall>a nodi'. iterazione nodi = (Inr a, nodi') \<longrightarrow> nodi' = passo_sincrono nodi)) \<and>
   (stato_valido nodi \<and> costi_convertibili nodi \<longrightarrow>
      (\<exists>a. iterazione nodi = (Inr a, passo_sincrono nodi)))"
proof (intro conjI impI allI)
  fix a nodi'
  assume "distinct (map fst nodi)" and "iterazione nodi = (Inr a, nodi')"
  then show "nodi' = passo_sincrono nodi" by (rule iterazione_sincrona)
next
  assume h: "stato_valido nodi \<and> costi_convertibili nodi"
  then have sv: "stato_valido nodi" and cc: "costi_convertibili nodi" by simp_all
  from iterazione_ok [OF sv cc] obtain a nodi' where it: "iterazione nodi = (Inr a, nodi')"
    by (cases "iterazione nodi") auto
  have "distinct (map fst nodi)"
    using sv by (intro topologia_valida_distinct stato_valido_topologia)
  from iterazione_sincrona [OF this it] it show "\<exists>a. iterazione nodi = (Inr a, passo_sincrono nodi)"
    by blast
qed

lemma stato_valido_main: "stato_valido (inizializza_tutti rete_main)"
  by (rule stato_valido_inizializza) (rule topologia_valida_main)

lemma costi_convertibili_main_iniziale: "costi_convertibili (inizializza_tutti rete_main)"
  by (rule costi_convertibili_inizializza) (rule costi_convertibili_main)

lemma distinct_main_iniziale: "distinct (map fst (inizializza_tutti rete_main))"
  using stato_valido_main by (intro topologia_valida_distinct stato_valido_topologia)

lemma passo_sincrono_main_1: "passo_sincrono (inizializza_tutti rete_main) = tabelle_main_1"
  by (simp add: passo_sincrono_def consegne_def ricevi_def valuta tabelle_main_1_def)

text \<open>The first round of \<^verbatim>\<open>main\<close>, computed both ways.\<close>

theorem iterazione_doppio_buffer_witness:
  "distinct (map fst (inizializza_tutti rete_main)) \<and>
   stato_valido (inizializza_tutti rete_main) \<and>
   costi_convertibili (inizializza_tutti rete_main) \<and>
   iterazione (inizializza_tutti rete_main) = (Inr 6, passo_sincrono (inizializza_tutti rete_main)) \<and>
   passo_sincrono (inizializza_tutti rete_main) = tabelle_main_1"
  using iterazione_doppio_buffer [of "inizializza_tutti rete_main"]
    stato_valido_main costi_convertibili_main_iniziale distinct_main_iniziale
  by (simp add: iterazione_main_1 passo_sincrono_main_1)

section \<open>The fixed point gives the shortest paths\<close>





































end
